theory Spec2Isabelle
  imports Main "HOL-Library.Word"
begin

unbundle bit_operations_syntax

section \<open>The MQTT client of the Network Module (mqtt.c)\<close>

text \<open>
  A shallow embedding of \<^verbatim>\<open>src/NetworkModule/mqtt.c\<close>: the binary codec of the fixed
  header and of the frames the client sends, the send queue, the packet identifier
  generator, the client operations, the receive engine and the two stream reassemblers
  (\<^verbatim>\<open>mqtt_sync\<close> for Home Assistant and for Domoticz).

  Conventions. A \<^verbatim>\<open>uint8_t\<close>, \<^verbatim>\<open>uint16_t\<close> or \<^verbatim>\<open>uint32_t\<close> is a word of that
  width, so that arithmetic wraps as in C. A buffer is a list of bytes and a pointer into
  it is an index. A pointer that the code compares with \<^verbatim>\<open>NULL\<close> is an \<open>option\<close>.
  The code is written for the STM8 and the Cosmic tool set (the head of mqtt.c), where
  an \<^verbatim>\<open>int\<close> and a \<^verbatim>\<open>size_t\<close> have 16 bits: an operand narrower than \<^verbatim>\<open>int\<close>
  is promoted to 16 signed bits, and a string length is a 16-bit word.
\<close>

type_synonym uint8_t = "8 word"
type_synonym uint16_t = "16 word"
type_synonym uint32_t = "32 word"

subsection \<open>Status codes and \<^verbatim>\<open>int16_t\<close> results\<close>

text \<open>
  Modelled from the spec: \<^verbatim>\<open>enum MQTTErrors\<close> is declared in mqtt.h, which is not among
  the sources. The enumerators below are the ones mqtt.c names. Their numbers are not
  known; the spec fixes their signs: every \<^verbatim>\<open>MQTT_ERROR_*\<close> is a hard error (negative),
  to be told apart from the value 0 and from \<^verbatim>\<open>MQTT_OK\<close>.
\<close>

datatype MQTTErrors =
    MQTT_OK
  | MQTT_ERROR_NULLPTR
  | MQTT_ERROR_CONTROL_FORBIDDEN_TYPE
  | MQTT_ERROR_CONTROL_INVALID_FLAGS
  | MQTT_ERROR_INVALID_REMAINING_LENGTH
  | MQTT_ERROR_CONNACK_FORBIDDEN_FLAGS
  | MQTT_ERROR_CONNACK_FORBIDDEN_CODE
  | MQTT_ERROR_RESPONSE_INVALID_CONTROL_TYPE
  | MQTT_ERROR_CONNECT_NOT_CALLED
  | MQTT_ERROR_SEND_BUFFER_IS_FULL
  | MQTT_ERROR_MALFORMED_RESPONSE
  | MQTT_ERROR_MALFORMED_REQUEST
  | MQTT_ERROR_ACK_OF_UNKNOWN
  | MQTT_ERROR_CONNECT_CLIENT_ID_REFUSED
  | MQTT_ERROR_CONNECTION_REFUSED
  | MQTT_ERROR_SUBSCRIBE_FAILED

text \<open>
  An \<^verbatim>\<open>int16_t\<close> result is either one of the enumerators (\<open>Inl\<close>) or a number
  (\<open>Inr\<close>): a count of bytes, or what a count becomes when it is stored in 16 signed bits.
\<close>

type_synonym int16_t = "MQTTErrors + int"

fun lt0 :: "int16_t \<Rightarrow> bool" where
  "lt0 (Inl e) = (e \<noteq> MQTT_OK)"
| "lt0 (Inr n) = (n < 0)"


definition to_int16 :: "nat \<Rightarrow> int16_t" where
  "to_int16 n = Inr (sint (word_of_nat n :: 16 word))"

subsection \<open>Control packet types and the fixed header\<close>

text \<open>
  The numbers of \<^verbatim>\<open>enum MQTTControlPacketType\<close> are the positions in the three tables
  of mqtt.c, whose entries are commented with the enumerators' names.
\<close>

type_synonym nibble = "4 word"

definition MQTT_CONTROL_CONNECT :: nibble where "MQTT_CONTROL_CONNECT = 1"
definition MQTT_CONTROL_CONNACK :: nibble where "MQTT_CONTROL_CONNACK = 2"
definition MQTT_CONTROL_PUBLISH :: nibble where "MQTT_CONTROL_PUBLISH = 3"
definition MQTT_CONTROL_PUBACK :: nibble where "MQTT_CONTROL_PUBACK = 4"
definition MQTT_CONTROL_PUBREC :: nibble where "MQTT_CONTROL_PUBREC = 5"
definition MQTT_CONTROL_PUBREL :: nibble where "MQTT_CONTROL_PUBREL = 6"
definition MQTT_CONTROL_PUBCOMP :: nibble where "MQTT_CONTROL_PUBCOMP = 7"
definition MQTT_CONTROL_SUBSCRIBE :: nibble where "MQTT_CONTROL_SUBSCRIBE = 8"
definition MQTT_CONTROL_SUBACK :: nibble where "MQTT_CONTROL_SUBACK = 9"
definition MQTT_CONTROL_UNSUBSCRIBE :: nibble where "MQTT_CONTROL_UNSUBSCRIBE = 10"
definition MQTT_CONTROL_UNSUBACK :: nibble where "MQTT_CONTROL_UNSUBACK = 11"
definition MQTT_CONTROL_PINGREQ :: nibble where "MQTT_CONTROL_PINGREQ = 12"
definition MQTT_CONTROL_PINGRESP :: nibble where "MQTT_CONTROL_PINGRESP = 13"
definition MQTT_CONTROL_DISCONNECT :: nibble where "MQTT_CONTROL_DISCONNECT = 14"

lemmas control_defs =
  MQTT_CONTROL_CONNECT_def MQTT_CONTROL_CONNACK_def MQTT_CONTROL_PUBLISH_def
  MQTT_CONTROL_PUBACK_def MQTT_CONTROL_PUBREC_def MQTT_CONTROL_PUBREL_def
  MQTT_CONTROL_PUBCOMP_def MQTT_CONTROL_SUBSCRIBE_def MQTT_CONTROL_SUBACK_def
  MQTT_CONTROL_UNSUBSCRIBE_def MQTT_CONTROL_UNSUBACK_def MQTT_CONTROL_PINGREQ_def
  MQTT_CONTROL_PINGRESP_def MQTT_CONTROL_DISCONNECT_def

text \<open>
  Modelled from the spec: \<^verbatim>\<open>struct mqtt_fixed_header\<close> is declared in mqtt.h. The spec's
  frame has a control type of 4 bits, a 4-bit flags field and a remaining length; mqtt.c
  keeps the remaining length in a \<^verbatim>\<open>uint32_t\<close>.
\<close>

record mqtt_fixed_header =
  control_type :: nibble
  control_flags :: nibble
  remaining_length :: uint32_t

definition control_type_is_valid :: "uint8_t list" where
  "control_type_is_valid =
     [0x00, 0x01, 0x01, 0x01, 0x01, 0x01, 0x01, 0x01,
      0x01, 0x01, 0x01, 0x01, 0x01, 0x01, 0x01, 0x00]"

definition required_flags :: "uint8_t list" where
  "required_flags =
     [0x00, 0x00, 0x00, 0x00, 0x00, 0x00, 0x02, 0x00,
      0x02, 0x00, 0x02, 0x00, 0x00, 0x00, 0x00, 0x00]"

definition mask_required_flags :: "uint8_t list" where
  "mask_required_flags =
     [0x00, 0x0F, 0x0F, 0x00, 0x0F, 0x0F, 0x0F, 0x0F,
      0x0F, 0x0F, 0x0F, 0x0F, 0x0F, 0x0F, 0x0F, 0x00]"

text \<open>The result \<open>None\<close> is the C value 0: no rule is violated.\<close>

definition mqtt_fixed_header_rule_violation :: "mqtt_fixed_header \<Rightarrow> MQTTErrors option" where
  "mqtt_fixed_header_rule_violation fixed_header =
     (let ctype = (ucast (control_type fixed_header) :: uint8_t);
          cflags = (ucast (control_flags fixed_header) :: uint8_t)
      in if control_type_is_valid ! unat ctype \<noteq> 0x01
         then Some MQTT_ERROR_CONTROL_FORBIDDEN_TYPE
         else if (cflags XOR required_flags ! unat ctype) AND mask_required_flags ! unat ctype = 1
         then Some MQTT_ERROR_CONTROL_INVALID_FLAGS
         else None)"


subsection \<open>Decoded responses\<close>

text \<open>
  Modelled from the spec: \<^verbatim>\<open>struct mqtt_response\<close> and the structs of its \<^verbatim>\<open>decoded\<close>
  part are declared in mqtt.h. The fields are the ones mqtt.c reads and writes. A pointer
  into the received buffer (\<^verbatim>\<open>topic_name\<close>, \<^verbatim>\<open>application_message\<close>,
  \<^verbatim>\<open>return_codes\<close>) is the index of the byte it points to. The three decoded structs
  are kept side by side.
\<close>

record mqtt_response_connack =
  session_present_flag :: uint8_t
  return_code :: uint8_t

record mqtt_response_publish =
  dup_flag :: uint8_t
  qos_level :: uint8_t
  retain_flag :: uint8_t
  topic_name_size :: uint16_t
  topic_name :: nat
  application_message :: nat
  application_message_size :: uint16_t

record mqtt_response_suback =
  suback_packet_id :: uint16_t
  return_codes :: nat
  num_return_codes :: uint16_t

record mqtt_response =
  fixed_header :: mqtt_fixed_header
  connack :: mqtt_response_connack
  publish :: mqtt_response_publish
  suback :: mqtt_response_suback

subsection \<open>Unpacking and packing the fixed header\<close>

text \<open>
  The \<^verbatim>\<open>do ... while\<close> loop of \<^verbatim>\<open>mqtt_unpack_fixed_header\<close>. The state is the
  read position \<open>i\<close> (\<^verbatim>\<open>buf - start\<close>), \<^verbatim>\<open>bufsz\<close>, \<^verbatim>\<open>lshift\<close> and the remaining
  length read so far. The first component of the result is \<open>Some r\<close> when the function
  returns \<open>r\<close> from inside the loop, and \<open>None\<close> when the loop ends.
\<close>

text \<open>
  The term \<^verbatim>\<open>(*buf & 0x7F) << lshift\<close> of the loop is computed in \<^verbatim>\<open>int\<close>, that is in
  16 signed bits, and then converted to \<^verbatim>\<open>uint32_t\<close> for the addition, which extends
  the sign. Where the shift leaves the 15 value bits the C result is undefined; the
  definition takes what the two's complement arithmetic of the target gives, the low 16
  bits of the product.
\<close>

definition shl_int :: "uint8_t \<Rightarrow> nat \<Rightarrow> uint32_t" where
  "shl_int v lshift = scast (push_bit lshift (ucast v :: 16 word))"

function unpack_remaining_length ::
  "uint8_t list \<Rightarrow> nat \<Rightarrow> uint16_t \<Rightarrow> nat \<Rightarrow> uint32_t
     \<Rightarrow> int16_t option \<times> nat \<times> uint16_t \<times> uint32_t" where
  "unpack_remaining_length buf i bufsz lshift rl =
     (if lshift = 28 then (Some (Inl MQTT_ERROR_INVALID_REMAINING_LENGTH), i, bufsz, rl)
      else let bufsz' = bufsz - 1; i' = i + 1 in
        if bufsz' = 0 then (Some (Inr 0), i', bufsz', rl)
        else let rl' = rl + shl_int (buf ! i' AND 0x7F) lshift;
                 lshift' = lshift + 7
             in if buf ! i' AND 0x80 \<noteq> 0
                then unpack_remaining_length buf i' bufsz' lshift' rl'
                else (None, i', bufsz', rl'))"
  by pat_completeness auto

lemma unat_pred_less: "(w :: 'a::len word) \<noteq> 0 \<Longrightarrow> unat (w - 1) < unat w"
  by (simp add: unat_minus_one unat_gt_0)

lemma unat_pred_pred_less: "(w :: 'a::len word) \<noteq> 1 \<Longrightarrow> unat (w - 2) < unat (w - 1)"
  using unat_pred_less [of "w - 1"] by simp

termination unpack_remaining_length
  by (relation "measure (\<lambda>(buf, i, bufsz, lshift, rl). unat (bufsz - 1))")
     (auto intro: unat_pred_pred_less)

declare unpack_remaining_length.simps [simp del]

definition mqtt_unpack_fixed_header ::
  "mqtt_response option \<Rightarrow> uint8_t list option \<Rightarrow> uint16_t \<Rightarrow> int16_t \<times> mqtt_response option" where
  "mqtt_unpack_fixed_header response buf bufsz =
     (case (response, buf) of
        (Some r, Some b) \<Rightarrow>
          if bufsz = 0 then (Inr 0, Some r)
          else
            let fh = \<lparr> control_type = ucast (drop_bit 4 (b ! 0)),
                       control_flags = ucast (b ! 0 AND 0x0F),
                       remaining_length = 0 \<rparr>
            in (case unpack_remaining_length b 0 bufsz 0 0 of
                  (Some ret, i, bufsz', rl) \<Rightarrow>
                    (ret, Some (r\<lparr>fixed_header := fh\<lparr>remaining_length := rl\<rparr>\<rparr>))
                | (None, i, bufsz', rl) \<Rightarrow>
                    let fh' = fh\<lparr>remaining_length := rl\<rparr>;
                        r' = r\<lparr>fixed_header := fh'\<rparr>;
                        bufsz'' = bufsz' - 1;
                        i' = i + 1
                    in (case mqtt_fixed_header_rule_violation fh' of
                          Some errcode \<Rightarrow> (Inl errcode, Some r')
                        | None \<Rightarrow>
                            if ucast bufsz'' < remaining_length fh' then (Inr 0, Some r')
                            else (Inr (int i'), Some r')))
      | _ \<Rightarrow> (Inl MQTT_ERROR_NULLPTR, response))"

text \<open>
  The loop of \<^verbatim>\<open>mqtt_pack_fixed_header\<close>. The result is \<open>(True, ...)\<close> when the
  function returns 0 from inside the loop; the buffer holds the bytes written so far.
\<close>

function pack_remaining_length ::
  "uint8_t list \<Rightarrow> nat \<Rightarrow> uint16_t \<Rightarrow> uint32_t \<Rightarrow> bool \<times> uint8_t list \<times> nat \<times> uint16_t" where
  "pack_remaining_length buf i bufsz rl =
     (let bufsz' = bufsz - 1; i' = i + 1 in
        if bufsz' = 0 then (True, buf, i', bufsz')
        else let b = (ucast (rl AND 0x7F) :: uint8_t);
                 b' = (if rl > 127 then b OR 0x80 else b);
                 buf' = buf[i' := b'];
                 rl' = drop_bit 7 rl
             in if b' AND 0x80 \<noteq> 0
                then pack_remaining_length buf' i' bufsz' rl'
                else (False, buf', i', bufsz'))"
  by pat_completeness auto

termination pack_remaining_length
  by (relation "measure (\<lambda>(buf, i, bufsz, rl). unat (bufsz - 1))")
     (auto intro: unat_pred_pred_less)

declare pack_remaining_length.simps [simp del]

definition mqtt_pack_fixed_header ::
  "uint8_t list option \<Rightarrow> uint16_t \<Rightarrow> mqtt_fixed_header option \<Rightarrow> int16_t \<times> uint8_t list option" where
  "mqtt_pack_fixed_header buf bufsz fixed_hdr =
     (case (fixed_hdr, buf) of
        (Some fh, Some b) \<Rightarrow>
          (case mqtt_fixed_header_rule_violation fh of
             Some errcode \<Rightarrow> (Inl errcode, Some b)
           | None \<Rightarrow>
               if bufsz = 0 then (Inr 0, Some b)
               else
                 let b0 = (push_bit 4 (ucast (control_type fh)) AND 0xF0 :: uint8_t);
                     b0' = b0 OR (ucast (control_flags fh) AND 0x0F);
                     b1 = b[0 := b0']
                 in (case pack_remaining_length b1 0 bufsz (remaining_length fh) of
                       (True, b2, i, bufsz') \<Rightarrow> (Inr 0, Some b2)
                     | (False, b2, i, bufsz') \<Rightarrow>
                         let bufsz'' = bufsz' - 1; i' = i + 1
                         in if ucast bufsz'' < remaining_length fh then (Inr 0, Some b2)
                            else (Inr (int i'), Some b2)))
      | _ \<Rightarrow> (Inl MQTT_ERROR_NULLPTR, buf))"

subsection \<open>Notions the statements about the fixed header use\<close>

text \<open>The first byte \<^verbatim>\<open>mqtt_pack_fixed_header\<close> writes: the type in the high four bits, the flags below.\<close>

definition hdr_byte :: "mqtt_fixed_header \<Rightarrow> uint8_t" where
  "hdr_byte x = (push_bit 4 (ucast (control_type x)) AND 0xF0) OR (ucast (control_flags x) AND 0x0F)"


subsection \<open>Integers and strings on the wire\<close>

text \<open>
  \<^verbatim>\<open>mqtt_pack_uint16\<close> stores \<^verbatim>\<open>HTONS(integer)\<close> with \<^verbatim>\<open>memcpy\<close>: the two bytes
  in network order, the high byte first, whatever the byte order of the host. The
  functions below take the buffer and the position \<^verbatim>\<open>buf\<close> points to, and return the
  buffer as written together with the count of bytes the C function returns.
\<close>

definition mqtt_pack_uint16 :: "uint8_t list \<Rightarrow> nat \<Rightarrow> uint16_t \<Rightarrow> uint8_t list \<times> nat" where
  "mqtt_pack_uint16 buf i integer =
     (buf[i := ucast (drop_bit 8 integer), i + 1 := ucast integer], 2)"


text \<open>Writing a run of bytes from a position on (\<^verbatim>\<open>memcpy\<close>, or a loop of stores).\<close>

fun write_bytes :: "uint8_t list \<Rightarrow> nat \<Rightarrow> uint8_t list \<Rightarrow> uint8_t list" where
  "write_bytes buf i [] = buf"
| "write_bytes buf i (x # xs) = write_bytes (buf[i := x]) (Suc i) xs"

text \<open>
  A C string is the list of its bytes before the terminating zero, so \<^verbatim>\<open>strlen\<close> is
  \<open>length\<close>, as a word of the 16 bits of \<^verbatim>\<open>size_t\<close>. \<^verbatim>\<open>mqtt_pack_str\<close> keeps the
  length in a \<^verbatim>\<open>uint16_t\<close>.
\<close>

definition mqtt_pack_str :: "uint8_t list \<Rightarrow> nat \<Rightarrow> uint8_t list \<Rightarrow> uint8_t list \<times> nat" where
  "mqtt_pack_str buf i str =
     (let len = (word_of_nat (length str) :: uint16_t);
          (buf1, k) = mqtt_pack_uint16 buf i len;
          buf2 = write_bytes buf1 (i + k) (take (unat len) str)
      in (buf2, unat len + 2))"

subsection \<open>The frames the client sends\<close>

text \<open>
  Modelled from the spec: the flag constants are declared in mqtt.h. They are the bits of
  the standard wire format the spec refers to; \<^verbatim>\<open>mqtt_unpack_publish_response\<close> shifts
  the DUP flag by 3 and the QoS bits by 1, which fixes the publish flags.
\<close>

definition MQTT_PUBLISH_DUP :: uint8_t where "MQTT_PUBLISH_DUP = 0x08"


text \<open>
  The result of a packing function that returns \<^verbatim>\<open>buf - start\<close> as an \<^verbatim>\<open>int16_t\<close>
  is \<open>to_int16\<close> of the count: a frame of more than 32767 bytes gives a negative number.
\<close>

definition mqtt_pack_publish_request ::
  "uint8_t list option \<Rightarrow> uint16_t \<Rightarrow> uint8_t list option \<Rightarrow> uint16_t \<Rightarrow> uint8_t list
     \<Rightarrow> uint16_t \<Rightarrow> uint8_t \<Rightarrow> int16_t \<times> uint8_t list option" where
  "mqtt_pack_publish_request buf bufsz topic_name_arg packet_id_arg application_message_arg
       application_message_size_arg publish_flags =
     (case (buf, topic_name_arg) of
        (Some b, Some topic) \<Rightarrow>
          let rl = (ucast (word_of_nat (length topic + 2) :: uint16_t) :: uint32_t)
                     + ucast application_message_size_arg;
              publish_flags' = publish_flags AND NOT MQTT_PUBLISH_DUP;
              fh = \<lparr>control_type = MQTT_CONTROL_PUBLISH, control_flags = ucast publish_flags',
                    remaining_length = rl\<rparr>
          in (case mqtt_pack_fixed_header (Some b) bufsz (Some fh) of
                (Inr n, Some b1) \<Rightarrow>
                  if n \<le> 0 then (Inr n, Some b1)
                  else
                    let i = nat n;
                        bufsz' = bufsz - word_of_int n
                    in if ucast bufsz' < rl then (Inr 0, Some b1)
                       else
                         let (b2, k) = mqtt_pack_str b1 i topic;
                             i' = i + k;
                             msg = take (unat application_message_size_arg) application_message_arg;
                             b3 = write_bytes b2 i' msg;
                             i'' = i' + unat application_message_size_arg
                         in (to_int16 i'', Some b3)
              | (rv, b1) \<Rightarrow> (rv, b1))
      | _ \<Rightarrow> (Inl MQTT_ERROR_NULLPTR, buf))"



subsection \<open>The send queue\<close>

text \<open>
  Modelled from the spec: \<^verbatim>\<open>struct mqtt_queued_message\<close>, \<^verbatim>\<open>struct mqtt_message_queue\<close>
  and the macros \<^verbatim>\<open>mqtt_mq_get\<close>, \<^verbatim>\<open>mqtt_mq_length\<close> and \<^verbatim>\<open>mqtt_mq_currsz\<close> are
  declared in mqtt.h. The spec's queued message is a reference (offset and length) into
  the arena, a lifecycle state, the control type, a packet identifier and the time of the
  last transmission; its entries are a stack growing from the high end of the arena
  downward while the frame bytes grow from the low end upward.

  The arena is the list \<open>mem\<close> of the bytes from \<^verbatim>\<open>mem_start\<close> to \<^verbatim>\<open>mem_end\<close>; the
  pointers \<^verbatim>\<open>curr\<close> and \<^verbatim>\<open>start\<close> are offsets from \<^verbatim>\<open>mem_start\<close>. The metadata
  slots are kept apart from the bytes: \<open>slots mq i\<close> is the struct that
  \<^verbatim>\<open>mqtt_mq_get(mq, i)\<close> points to, whether it is in use or not (a slot that was never
  written holds whatever the memory held), and \<open>queue_tail mq\<close> counts the slots in use,
  so that the pointer \<^verbatim>\<open>queue_tail\<close> is \<^verbatim>\<open>mqtt_mq_get(mq, queue_tail mq - 1)\<close> and
  \<^verbatim>\<open>mem_end\<close> when the count is 0. Slot 0 is the entry registered first. Keeping slots
  and bytes apart is exact as long as the two regions do not overlap, which is the
  spec's invariant of the queue.

  The macro \<^verbatim>\<open>mqtt_mq_currsz\<close> is a parameter \<open>currsz\<close> of the functions that use it.
\<close>

datatype MQTTQueuedMessageState =
    MQTT_QUEUED_UNSENT
  | MQTT_QUEUED_AWAITING_ACK
  | MQTT_QUEUED_COMPLETE

record mqtt_queued_message =
  start :: int
  size_m :: uint16_t
  state :: MQTTQueuedMessageState
  time_sent :: uint32_t
  control_type_m :: nibble
  packet_id :: uint16_t

record mqtt_message_queue =
  mem :: "uint8_t list"
  curr :: int
  curr_sz :: uint16_t
  queue_tail :: nat
  slots :: "nat \<Rightarrow> mqtt_queued_message"

definition mqtt_mq_get :: "mqtt_message_queue \<Rightarrow> nat \<Rightarrow> mqtt_queued_message" where
  "mqtt_mq_get mq i = slots mq i"

definition mqtt_mq_length :: "mqtt_message_queue \<Rightarrow> nat" where
  "mqtt_mq_length mq = queue_tail mq"

text \<open>The entries in use, in the order of the scans: from \<^verbatim>\<open>mqtt_mq_get(mq, 0)\<close> down to \<^verbatim>\<open>queue_tail\<close>.\<close>

definition mq_entries :: "mqtt_message_queue \<Rightarrow> mqtt_queued_message list" where
  "mq_entries mq = map (mqtt_mq_get mq) [0..<mqtt_mq_length mq]"

definition mqtt_mq_init ::
  "(mqtt_message_queue \<Rightarrow> uint16_t) \<Rightarrow> mqtt_message_queue \<Rightarrow> uint8_t list option
     \<Rightarrow> mqtt_message_queue" where
  "mqtt_mq_init currsz mq buf =
     (case buf of
        None \<Rightarrow> mq
      | Some b \<Rightarrow>
          let mq1 = mq\<lparr>mem := b, curr := 0, queue_tail := 0\<rparr>
          in mq1\<lparr>curr_sz := currsz mq1\<rparr>)"

text \<open>The result is the queue and the index of the slot the returned pointer points to.\<close>

definition mqtt_mq_register ::
  "(mqtt_message_queue \<Rightarrow> uint16_t) \<Rightarrow> mqtt_message_queue \<Rightarrow> uint16_t
     \<Rightarrow> mqtt_message_queue \<times> nat" where
  "mqtt_mq_register currsz mq nbytes =
     (let t = queue_tail mq;
          m = (slots mq t)\<lparr>start := curr mq, size_m := nbytes, state := MQTT_QUEUED_UNSENT\<rparr>;
          mq1 = mq\<lparr>queue_tail := t + 1, slots := (slots mq)(t := m),
                   curr := curr mq + uint nbytes\<rparr>
      in (mq1\<lparr>curr_sz := currsz mq1\<rparr>, t))"

text \<open>
  The scan of \<^verbatim>\<open>mqtt_mq_clean\<close>: from slot \<open>k\<close> on, the first slot in use whose state
  is not \<^verbatim>\<open>MQTT_QUEUED_COMPLETE\<close>, or the count of the slots in use when there is none
  (the pointer \<^verbatim>\<open>new_head\<close> is then below \<^verbatim>\<open>queue_tail\<close>).
\<close>

function clean_scan :: "mqtt_message_queue \<Rightarrow> nat \<Rightarrow> nat" where
  "clean_scan mq k =
     (if k < queue_tail mq
      then (if state (mqtt_mq_get mq k) \<noteq> MQTT_QUEUED_COMPLETE then k else clean_scan mq (k + 1))
      else k)"
  by pat_completeness auto

termination clean_scan
  by (relation "measure (\<lambda>(mq, k). queue_tail mq - k)") auto

declare clean_scan.simps [simp del]

text \<open>
  \<^verbatim>\<open>memmove(mem_start, new_head->start, n)\<close> on the arena: the \<open>n\<close> bytes from the
  offset \<open>s\<close> on come to the front.
\<close>

definition memmove_front :: "uint8_t list \<Rightarrow> nat \<Rightarrow> nat \<Rightarrow> uint8_t list" where
  "memmove_front m s n = write_bytes m 0 (take n (drop s m))"

definition mqtt_mq_clean ::
  "(mqtt_message_queue \<Rightarrow> uint16_t) \<Rightarrow> mqtt_message_queue \<Rightarrow> mqtt_message_queue" where
  "mqtt_mq_clean currsz mq =
     (let new_head = clean_scan mq 0 in
      if queue_tail mq \<le> new_head
      then let mq1 = mq\<lparr>curr := 0, queue_tail := 0\<rparr> in mq1\<lparr>curr_sz := currsz mq1\<rparr>
      else if new_head = 0 then mq
      else
        let n = (word_of_int (curr mq - start (mqtt_mq_get mq new_head)) :: uint16_t);
            removing = (word_of_int (start (mqtt_mq_get mq new_head)) :: uint16_t);
            mem' = memmove_front (mem mq) (nat (start (mqtt_mq_get mq new_head))) (unat n);
            new_tail_idx = queue_tail mq - 1 - new_head;
            moved = (\<lambda>i. if i \<le> new_tail_idx then slots mq (i + new_head) else slots mq i);
            bumped = (\<lambda>i. if i < new_tail_idx + 1
                           then (moved i)\<lparr>start := start (moved i) - uint removing\<rparr>
                           else moved i);
            mq1 = mq\<lparr>mem := mem', curr := uint n, queue_tail := new_tail_idx + 1,
                     slots := bumped\<rparr>
        in mq1\<lparr>curr_sz := currsz mq1\<rparr>)"



subsection \<open>The client and the packet identifiers\<close>

text \<open>
  Modelled from the spec: \<^verbatim>\<open>struct mqtt_client\<close> is declared in mqtt.h. The fields are
  the ones mqtt.c uses: the send queue, the error, the seed of the identifier generator,
  the keep-alive interval, the response timeout, the count of timeouts, the send offset
  and the time of the last send. The callback and the receive buffer descriptor, which
  the modelled functions do not read, are left out; the callback is a parameter of
  \<^verbatim>\<open>mqtt_recv\<close>.
\<close>

record mqtt_client =
  mq :: mqtt_message_queue
  error :: int16_t
  pid_lfsr :: uint16_t
  keep_alive :: uint16_t
  response_timeout :: int
  number_of_timeouts :: int
  send_offset :: int
  time_of_last_send :: uint32_t

text \<open>One step of the shift register: the body of the loop before the scan.\<close>

definition lfsr_step :: "uint16_t \<Rightarrow> uint16_t" where
  "lfsr_step x = (let lsb = x AND 1; x' = drop_bit 1 x in if lsb \<noteq> 0 then x' XOR 0xB400 else x')"

text \<open>The scan of the queue for a packet identifier: \<^verbatim>\<open>pid_exists\<close> after the \<^verbatim>\<open>for\<close> loop.\<close>

definition pid_exists :: "mqtt_message_queue \<Rightarrow> uint16_t \<Rightarrow> bool" where
  "pid_exists q x = list_ex (\<lambda>c. packet_id c = x) (mq_entries q)"

text \<open>
  The \<^verbatim>\<open>do ... while (pid_exists)\<close> loop. It need not end: the result \<open>None\<close> stands
  for a loop that runs forever.
\<close>

partial_function (option) next_pid_loop :: "mqtt_message_queue \<Rightarrow> uint16_t \<Rightarrow> uint16_t option" where
  "next_pid_loop q x =
     (let x' = lfsr_step x in if pid_exists q x' then next_pid_loop q x' else Some x')"

declare next_pid_loop.simps [code]

definition mqtt_next_pid :: "mqtt_client \<Rightarrow> (uint16_t \<times> mqtt_client) option" where
  "mqtt_next_pid client =
     (let c1 = (if pid_lfsr client = 0 then client\<lparr>pid_lfsr := 163\<rparr> else client)
      in case next_pid_loop (mq c1) (pid_lfsr c1) of
           None \<Rightarrow> None
         | Some x \<Rightarrow> Some (x, c1\<lparr>pid_lfsr := x\<rparr>))"

subsection \<open>Initialisation, connect, publish, subscribe\<close>

definition mqtt_init ::
  "(mqtt_message_queue \<Rightarrow> uint16_t) \<Rightarrow> mqtt_client option \<Rightarrow> uint8_t list option
     \<Rightarrow> uint8_t list option \<Rightarrow> int16_t \<times> mqtt_client option" where
  "mqtt_init currsz client sendbuf recvbuf =
     (case (client, sendbuf, recvbuf) of
        (Some c, Some sb, Some rb) \<Rightarrow>
          (Inl MQTT_OK,
           Some (c\<lparr>mq := mqtt_mq_init currsz (mq c) (Some sb),
                   error := Inl MQTT_ERROR_CONNECT_NOT_CALLED,
                   response_timeout := 30,
                   number_of_timeouts := 0,
                   pid_lfsr := 0,
                   send_offset := 0\<rparr>))
      | _ \<Rightarrow> (Inl MQTT_ERROR_NULLPTR, client))"

text \<open>
  The packing functions write at \<^verbatim>\<open>client->mq.curr\<close>: into the part of the arena from
  the offset \<open>curr\<close> on.
\<close>

text \<open>
  The count a packing function returned, as the \<^verbatim>\<open>uint16_t\<close> argument of
  \<^verbatim>\<open>mqtt_mq_register\<close>. The callers pass it only when it is not negative, and the
  packing functions never return \<^verbatim>\<open>MQTT_OK\<close>, so no enumerator reaches the conversion.
\<close>

fun nbytes_of :: "int16_t \<Rightarrow> uint16_t" where
  "nbytes_of (Inr n) = word_of_int n"
| "nbytes_of (Inl e) = 1"

definition arena_at_curr :: "mqtt_message_queue \<Rightarrow> uint8_t list" where
  "arena_at_curr q = drop (nat (curr q)) (mem q)"

definition arena_written :: "mqtt_message_queue \<Rightarrow> uint8_t list \<Rightarrow> mqtt_message_queue" where
  "arena_written q b = q\<lparr>mem := take (nat (curr q)) (mem q) @ b\<rparr>"

definition set_slot ::
  "mqtt_message_queue \<Rightarrow> nat \<Rightarrow> (mqtt_queued_message \<Rightarrow> mqtt_queued_message) \<Rightarrow> mqtt_message_queue" where
  "set_slot q i f = q\<lparr>slots := (slots q)(i := f (slots q i))\<rparr>"


text \<open>
  \<^verbatim>\<open>mqtt_publish\<close> and \<^verbatim>\<open>mqtt_subscribe\<close> call \<^verbatim>\<open>mqtt_next_pid\<close> first; they do not
  return when its loop does not end.
\<close>

definition mqtt_publish ::
  "(mqtt_message_queue \<Rightarrow> uint16_t) \<Rightarrow> mqtt_client \<Rightarrow> uint8_t list option \<Rightarrow> uint8_t list
     \<Rightarrow> uint16_t \<Rightarrow> uint8_t \<Rightarrow> (int16_t \<times> mqtt_client) option" where
  "mqtt_publish currsz client topic_name_arg application_message_arg application_message_size_arg
       publish_flags =
     (case mqtt_next_pid client of
        None \<Rightarrow> None
      | Some (pid, c1) \<Rightarrow>
          Some
           (if lt0 (error c1) then (error c1, c1)
            else
              let q1 = mqtt_mq_clean currsz (mq c1);
                  (rv, b) = mqtt_pack_publish_request (Some (arena_at_curr q1)) (curr_sz q1)
                              topic_name_arg pid application_message_arg
                              application_message_size_arg publish_flags;
                  q2 = (case b of Some b' \<Rightarrow> arena_written q1 b' | None \<Rightarrow> q1)
              in if lt0 rv then (rv, c1\<lparr>mq := q2, error := rv\<rparr>)
                 else
                   let (q3, msg) = mqtt_mq_register currsz q2
                                     (nbytes_of rv);
                       q4 = set_slot q3 msg
                              (\<lambda>m. m\<lparr>control_type_m := MQTT_CONTROL_PUBLISH, packet_id := pid\<rparr>)
                   in (Inl MQTT_OK, c1\<lparr>mq := q4\<rparr>)))"


subsection \<open>Unpacking a response\<close>






subsection \<open>The receive engine\<close>


text \<open>
  What \<^verbatim>\<open>mqtt_recv\<close> reads and writes: the client, the two flags that tell main.c of an
  acknowledgement, and the state of the application, which the publish callback changes.
\<close>

record 'a mqtt_world =
  client :: mqtt_client
  connack_received :: uint8_t
  suback_received :: uint8_t
  app :: 'a




subsection \<open>Notions the statements about the queue use\<close>

text \<open>
  Modelled from the spec: the macro \<^verbatim>\<open>mqtt_mq_currsz\<close> is declared in mqtt.h. In the
  spec's words the free size is the capacity minus the bytes in use by both frame data
  and metadata. The size of one metadata slot depends on the compiler and is the first
  argument. The functions of the queue take the macro as a parameter; this definition
  only serves to run them on concrete queues.
\<close>

definition currsz_spec :: "nat \<Rightarrow> mqtt_message_queue \<Rightarrow> uint16_t" where
  "currsz_spec slot q =
     (let free = int (length (mem q)) - curr q - int (slot * queue_tail q)
      in if free \<le> 0 then 0 else word_of_int free)"

text \<open>The bytes of the arena that an entry refers to.\<close>

definition frame_bytes :: "mqtt_message_queue \<Rightarrow> mqtt_queued_message \<Rightarrow> uint8_t list" where
  "frame_bytes q m = take (unat (size_m m)) (drop (nat (start m)) (mem q))"

definition total_size :: "mqtt_queued_message list \<Rightarrow> int" where
  "total_size ms = sum_list (map (\<lambda>m. uint (size_m m)) ms)"

text \<open>
  The queue as \<^verbatim>\<open>mqtt_mq_register\<close> builds it: the frames lie one after the other from
  the start of the arena, the first registered first, and \<^verbatim>\<open>curr\<close> is the end of the
  last one.
\<close>

fun contiguous :: "int \<Rightarrow> mqtt_queued_message list \<Rightarrow> int \<Rightarrow> bool" where
  "contiguous a [] c = (a = c)"
| "contiguous a (m # ms) c = (start m = a \<and> contiguous (a + uint (size_m m)) ms c)"

definition mq_wf :: "mqtt_message_queue \<Rightarrow> bool" where
  "mq_wf q = (contiguous 0 (mq_entries q) (curr q) \<and> curr q \<le> int (length (mem q))
              \<and> length (mem q) < 65536)"

definition rebase :: "int \<Rightarrow> mqtt_queued_message \<Rightarrow> mqtt_queued_message" where
  "rebase d m = m\<lparr>start := start m - d\<rparr>"

definition is_complete :: "mqtt_queued_message \<Rightarrow> bool" where
  "is_complete m = (state m = MQTT_QUEUED_COMPLETE)"

subsection \<open>Queues for the examples\<close>

text \<open>
  Two frames, of 2 and 3 bytes: the older one unsent, the most recent one complete.
\<close>

definition queue_newest_complete :: mqtt_message_queue where
  "queue_newest_complete =
     \<lparr>mem = [1, 2, 3, 4, 5, 0, 0, 0], curr = 5, curr_sz = 0, queue_tail = 2,
      slots = (\<lambda>i.
        if i = 0 then \<lparr>start = 0, size_m = 2, state = MQTT_QUEUED_UNSENT, time_sent = 0,
                       control_type_m = MQTT_CONTROL_SUBSCRIBE, packet_id = 7\<rparr>
        else \<lparr>start = 2, size_m = 3, state = MQTT_QUEUED_COMPLETE, time_sent = 0,
              control_type_m = MQTT_CONTROL_PUBLISH, packet_id = 9\<rparr>)\<rparr>"

text \<open>
  Three frames, of 2, 3 and 1 bytes: the oldest complete, the next awaiting its
  acknowledgement, the most recent complete.
\<close>

definition queue_oldest_complete :: mqtt_message_queue where
  "queue_oldest_complete =
     \<lparr>mem = [1, 2, 3, 4, 5, 6, 0, 0], curr = 6, curr_sz = 0, queue_tail = 3,
      slots = (\<lambda>i.
        if i = 0 then \<lparr>start = 0, size_m = 2, state = MQTT_QUEUED_COMPLETE, time_sent = 0,
                       control_type_m = MQTT_CONTROL_PUBLISH, packet_id = 7\<rparr>
        else if i = 1 then \<lparr>start = 2, size_m = 3, state = MQTT_QUEUED_AWAITING_ACK, time_sent = 0,
                       control_type_m = MQTT_CONTROL_SUBSCRIBE, packet_id = 9\<rparr>
        else \<lparr>start = 5, size_m = 1, state = MQTT_QUEUED_COMPLETE, time_sent = 0,
              control_type_m = MQTT_CONTROL_PUBLISH, packet_id = 11\<rparr>)\<rparr>"

text \<open>Two frames, both complete.\<close>

definition queue_all_complete :: mqtt_message_queue where
  "queue_all_complete =
     \<lparr>mem = [1, 2, 3, 4, 5, 0, 0, 0], curr = 5, curr_sz = 0, queue_tail = 2,
      slots = (\<lambda>i.
        if i = 0 then \<lparr>start = 0, size_m = 2, state = MQTT_QUEUED_COMPLETE, time_sent = 0,
                       control_type_m = MQTT_CONTROL_PUBLISH, packet_id = 7\<rparr>
        else \<lparr>start = 2, size_m = 3, state = MQTT_QUEUED_COMPLETE, time_sent = 0,
              control_type_m = MQTT_CONTROL_PUBLISH, packet_id = 9\<rparr>)\<rparr>"


text \<open>
  A client with an empty send queue over an arena of \<open>n\<close> bytes, all of them free, and
  no error: the state after \<^verbatim>\<open>mqtt_init\<close> and a connect whose message has been
  acknowledged and cleaned away.
\<close>

definition empty_slot :: mqtt_queued_message where
  "empty_slot = \<lparr>start = 0, size_m = 0, state = MQTT_QUEUED_UNSENT, time_sent = 0,
                  control_type_m = 0, packet_id = 0\<rparr>"

definition idle_client :: "nat \<Rightarrow> mqtt_client" where
  "idle_client n =
     \<lparr>mq = \<lparr>mem = replicate n 0, curr = 0, curr_sz = word_of_nat n, queue_tail = 0,
             slots = (\<lambda>i. empty_slot)\<rparr>,
      error = Inl MQTT_OK, pid_lfsr = 0, keep_alive = 60, response_timeout = 30,
      number_of_timeouts = 0, send_offset = 0, time_of_last_send = 0\<rparr>"

text \<open>The topic \<open>t\<close> and a payload of 10 bytes: a PUBLISH frame of 15 bytes.\<close>

definition payload10 :: "uint8_t list" where
  "payload10 = [1, 2, 3, 4, 5, 6, 7, 8, 9, 10]"

text \<open>
  A client whose queue holds one message, waiting for its acknowledgement, with the
  packet identifier \<open>0xB451\<close>: the first value the shift register gives from its seed.
\<close>

definition pending_client :: mqtt_client where
  "pending_client =
     \<lparr>mq = \<lparr>mem = [0x82, 0x06, 0xB4, 0x51, 0x00, 0x01, 0x74, 0x00] @ replicate 24 0, curr = 8,
             curr_sz = 12, queue_tail = 1,
             slots = (\<lambda>i. \<lparr>start = 0, size_m = 8, state = MQTT_QUEUED_AWAITING_ACK,
                             time_sent = 0, control_type_m = MQTT_CONTROL_SUBSCRIBE,
                             packet_id = 0xB451\<rparr>)\<rparr>,
      error = Inl MQTT_OK, pid_lfsr = 0, keep_alive = 60, response_timeout = 30,
      number_of_timeouts = 0, send_offset = 0, time_of_last_send = 0\<rparr>"




subsection \<open>The shift register on lists of bits\<close>

text \<open>
  The 16 bits of the register as a list, the lowest bit first, and the step of the
  register on such a list: every bit moves one place down, the lowest bit comes in at
  the top and is added to the bits 10, 12 and 13 (the taps \<open>0xB400\<close>). This copy of
  \<open>lfsr_step\<close> is what the orbit of the register is computed with.
\<close>

definition bits16 :: "uint16_t \<Rightarrow> bool list" where
  "bits16 x = map (bit x) [0..<16]"

fun stepl :: "bool list \<Rightarrow> bool list" where
  "stepl [b0, b1, b2, b3, b4, b5, b6, b7, b8, b9, b10, b11, b12, b13, b14, b15] =
     [b1, b2, b3, b4, b5, b6, b7, b8, b9, b10, b11 \<noteq> b0, b12, b13 \<noteq> b0, b14 \<noteq> b0, b15, b0]"
| "stepl bs = bs"

definition onel :: "bool list" where
  "onel = [True, False, False, False, False, False, False, False,
           False, False, False, False, False, False, False, False]"

text \<open>
  \<open>chkl k bs\<close> makes \<open>2 ^ k\<close> steps from \<open>bs\<close> and gives the list reached, or \<open>None\<close>
  when one of these steps reaches the list of the word 1.
\<close>

fun chkl :: "nat \<Rightarrow> bool list \<Rightarrow> bool list option" where
  "chkl 0 x = (let y = stepl x in if y = onel then None else Some y)"
| "chkl (Suc k) x = (case chkl k x of None \<Rightarrow> None | Some y \<Rightarrow> chkl k y)"

text \<open>
  The register, started at 1, has the bits \<open>bs\<close> after \<open>n\<close> steps and has not come
  back to 1 on the way.
\<close>

definition orbit_upto :: "nat \<Rightarrow> bool list \<Rightarrow> bool" where
  "orbit_upto n bs = (bits16 ((lfsr_step ^^ n) 1) = bs
      \<and> list_all (\<lambda>i. (lfsr_step ^^ i) 1 \<noteq> 1) [1..<Suc n])"

section \<open>Properties of the codec\<close>

subsection \<open>Bytes and the two loops\<close>

lemma w_ne1: "1 < unat (w :: 'a::len word) \<Longrightarrow> w \<noteq> 1"
  by auto

lemma bit_int_0x7F: "bit (0x7F :: int) n \<longleftrightarrow> n < 7"
proof -
  have "(0x7F :: int) = mask 7" by (simp add: mask_eq_exp_minus_1)
  then show ?thesis by (simp only: bit_mask_iff) simp
qed

lemma bit_int_0x80: "bit (0x80 :: int) n \<longleftrightarrow> n = 7"
proof -
  have "(0x80 :: int) = 2 ^ 7" by simp
  then show ?thesis by (simp only: bit_exp_iff) auto
qed

lemma bit_int_0x0F: "bit (0x0F :: int) n \<longleftrightarrow> n < 4"
proof -
  have "(0x0F :: int) = mask 4" by (simp add: mask_eq_exp_minus_1)
  then show ?thesis by (simp only: bit_mask_iff) simp
qed

lemma bit_int_0xF0: "bit (0xF0 :: int) n \<longleftrightarrow> 4 \<le> n \<and> n < 8"
proof -
  have "(0xF0 :: int) = push_bit 4 (mask 4)" by (simp add: mask_eq_exp_minus_1 push_bit_eq_mult)
  then show ?thesis by (simp only: bit_push_bit_iff bit_mask_iff) auto
qed

lemmas bit_consts = bit_int_0x7F bit_int_0x80 bit_int_0x0F bit_int_0xF0

lemma low7_no_cont: "(ucast ((rl :: uint32_t) AND 0x7F) :: uint8_t) AND 0x80 = 0"
  by (rule bit_eqI) (auto simp: bit_simps bit_consts)

lemma cont_set: "((b :: uint8_t) OR 0x80) AND 0x80 \<noteq> 0"
proof -
  have "bit ((b OR 0x80) AND 0x80) 7" by (simp add: bit_simps bit_consts)
  then show ?thesis by auto
qed








lemma unat_pred: "0 < unat (w :: 'a::len word) \<Longrightarrow> unat (w - 1) = unat w - 1"
  by (metis unat_minus_one unat_0 less_numeral_extra(3))

lemma pack_rl_last:
  "rl \<le> 127 \<Longrightarrow> 1 < unat bufsz \<Longrightarrow>
   pack_remaining_length buf i bufsz rl = (False, buf[Suc i := ucast (rl AND 0x7F)], Suc i, bufsz - 1)"
  by (subst pack_remaining_length.simps) (simp add: Let_def w_ne1 low7_no_cont not_less [symmetric])

lemma pack_rl_more:
  "127 < rl \<Longrightarrow> 1 < unat bufsz \<Longrightarrow>
   pack_remaining_length buf i bufsz rl =
   pack_remaining_length (buf[Suc i := ucast (rl AND 0x7F) OR 0x80]) (Suc i) (bufsz - 1) (drop_bit 7 rl)"
  by (subst pack_remaining_length.simps) (simp add: Let_def w_ne1 cont_set)





lemma ucast16_less: "(ucast (w :: uint16_t) < (rl :: uint32_t)) = (unat w < unat rl)"
proof -
  have "unat (ucast w :: uint32_t) = unat w"
    by (simp add: unsigned_ucast_eq take_bit_nat_eq_self
        order_less_trans [OF unsigned_less [of w, where 'a = nat]])
  then show ?thesis by (simp add: word_less_nat_alt)
qed

lemma unat16_sub:
  fixes w :: uint16_t
  shows "1 \<le> unat w \<Longrightarrow> unat (w - 1) = unat w - 1"
    and "2 \<le> unat w \<Longrightarrow> unat (w - 2) = unat w - 2"
    and "3 \<le> unat w \<Longrightarrow> unat (w - 3) = unat w - 3"
    and "4 \<le> unat w \<Longrightarrow> unat (w - 4) = unat w - 4"
    and "5 \<le> unat w \<Longrightarrow> unat (w - 5) = unat w - 5"
  by (simp_all add: unat_sub word_le_nat_alt)

lemma unat_sub1: "1 \<le> unat (w :: 'a::len word) \<Longrightarrow> unat (w - 1) = unat w - 1"
  using unat_pred [of w] by simp

lemma unat_drop7: "unat (drop_bit 7 (rl :: uint32_t)) = unat rl div 128"
  "unat (drop_bit 14 (rl :: uint32_t)) = unat rl div 16384"
  by (simp_all add: unat_drop_bit_eq drop_bit_eq_div unat_div)

lemma le127_iff: "((rl :: uint32_t) \<le> 127) = (unat rl \<le> 127)"
  by (simp add: word_le_nat_alt)

lemma gt127_iff: "(127 < (rl :: uint32_t)) = (127 < unat rl)"
  by (simp add: word_less_nat_alt)

lemma pack_1:
  assumes "mqtt_fixed_header_rule_violation x = None" "unat (remaining_length x) \<le> 127"
    "2 + unat (remaining_length x) \<le> unat bufsz"
  shows "mqtt_pack_fixed_header (Some b) bufsz (Some x) =
    (Inr 2, Some (b[0 := hdr_byte x, 1 := ucast (remaining_length x AND 0x7F)]))"
proof -
  have nz: "bufsz \<noteq> 0" using assms(3) by auto
  have l: "pack_remaining_length (b[0 := hdr_byte x]) 0 bufsz (remaining_length x) =
           (False, b[0 := hdr_byte x, Suc 0 := ucast (remaining_length x AND 0x7F)], Suc 0, bufsz - 1)"
    using assms by (intro pack_rl_last) (auto simp: le127_iff)
  have u: "unat (bufsz - 2) = unat bufsz - 2"
    using assms(3) by (simp add: unat16_sub)
  show ?thesis
    using assms nz l u
    by (simp add: mqtt_pack_fixed_header_def Let_def hdr_byte_def [symmetric] ucast16_less)
qed

lemma pack_2:
  assumes "mqtt_fixed_header_rule_violation x = None" "127 < unat (remaining_length x)"
    "unat (remaining_length x) \<le> 16383"
    "3 + unat (remaining_length x) \<le> unat bufsz"
  shows "mqtt_pack_fixed_header (Some b) bufsz (Some x) =
    (Inr 3, Some (b[0 := hdr_byte x, 1 := ucast (remaining_length x AND 0x7F) OR 0x80,
                    2 := ucast (drop_bit 7 (remaining_length x) AND 0x7F)]))"
proof -
  have nz: "bufsz \<noteq> 0" using assms(4) by auto
  have u1: "unat (bufsz - 1) = unat bufsz - 1" using assms(4) by (simp add: unat_sub1)
  have u3: "unat (bufsz - 3) = unat bufsz - 3" using assms(4) by (simp add: unat16_sub)
  have l: "pack_remaining_length (b[0 := hdr_byte x]) 0 bufsz (remaining_length x) =
           (False, b[0 := hdr_byte x, Suc 0 := ucast (remaining_length x AND 0x7F) OR 0x80,
                     Suc (Suc 0) := ucast (drop_bit 7 (remaining_length x) AND 0x7F)], Suc (Suc 0), bufsz - 2)"
    using assms u1
    by (subst pack_rl_more, simp add: gt127_iff, simp, subst pack_rl_last)
       (auto simp: le127_iff unat_drop7)
  show ?thesis
    using assms nz l u3
    by (simp add: mqtt_pack_fixed_header_def Let_def hdr_byte_def [symmetric] ucast16_less numeral_2_eq_2)
qed

lemma pack_3:
  assumes "mqtt_fixed_header_rule_violation x = None" "16383 < unat (remaining_length x)"
    "4 + unat (remaining_length x) \<le> unat bufsz"
  shows "mqtt_pack_fixed_header (Some b) bufsz (Some x) =
    (Inr 4, Some (b[0 := hdr_byte x, 1 := ucast (remaining_length x AND 0x7F) OR 0x80,
                    2 := ucast (drop_bit 7 (remaining_length x) AND 0x7F) OR 0x80,
                    3 := ucast (drop_bit 14 (remaining_length x) AND 0x7F)]))"
proof -
  have bs: "unat bufsz < 65536" using unsigned_less [of bufsz, where 'a = nat] by simp
  have nz: "bufsz \<noteq> 0" using assms(3) by auto
  have u1: "unat (bufsz - 1) = unat bufsz - 1" using assms(3) by (simp add: unat_sub1)
  have u2: "unat (bufsz - 2) = unat bufsz - 2" using assms(3) by (simp add: unat16_sub)
  have u4: "unat (bufsz - 4) = unat bufsz - 4" using assms(3) by (simp add: unat16_sub)
  have l: "pack_remaining_length (b[0 := hdr_byte x]) 0 bufsz (remaining_length x) =
           (False, b[0 := hdr_byte x, Suc 0 := ucast (remaining_length x AND 0x7F) OR 0x80,
                     Suc (Suc 0) := ucast (drop_bit 7 (remaining_length x) AND 0x7F) OR 0x80,
                     Suc (Suc (Suc 0)) := ucast (drop_bit 14 (remaining_length x) AND 0x7F)],
            Suc (Suc (Suc 0)), bufsz - 3)"
    using assms u1 u2 bs
    by (subst pack_rl_more, simp add: gt127_iff, simp,
        subst pack_rl_more, simp add: gt127_iff unat_drop7, simp, subst pack_rl_last)
       (auto simp: le127_iff unat_drop7)
  show ?thesis
    using assms nz l u4
    by (simp add: mqtt_pack_fixed_header_def Let_def hdr_byte_def [symmetric] ucast16_less
        numeral_2_eq_2 numeral_3_eq_3)
qed















lemma rule_violation_cong:
  "control_type y = control_type x \<Longrightarrow> control_flags y = control_flags x \<Longrightarrow>
   mqtt_fixed_header_rule_violation y = mqtt_fixed_header_rule_violation x"
  by (simp add: mqtt_fixed_header_rule_violation_def)

lemma fh_eq:
  "\<lparr>control_type = control_type x, control_flags = control_flags x,
    remaining_length = remaining_length x\<rparr> = x"
  by simp

subsection \<open>Packing, then unpacking\<close>




subsection \<open>The flag check\<close>

text \<open>
  What the flag check of \<^verbatim>\<open>mqtt_fixed_header_rule_violation\<close> decides: the masked
  difference is compared with 1, so the header is refused only when the flags differ
  from the required ones in the lowest bit and in no other masked bit.
\<close>

lemma rule_violation_invalid_flags_iff:
  "mqtt_fixed_header_rule_violation x = Some MQTT_ERROR_CONTROL_INVALID_FLAGS \<longleftrightarrow>
     control_type_is_valid ! unat (control_type x) = 1 \<and>
     (ucast (control_flags x) XOR required_flags ! unat (control_type x))
        AND mask_required_flags ! unat (control_type x) = 1"
proof -
  have "unat (ucast (control_type x) :: uint8_t) = unat (control_type x)"
    using unsigned_less [of "control_type x", where 'a = nat]
    by (simp add: unsigned_ucast_eq take_bit_nat_eq_self)
  then show ?thesis
    by (simp add: mqtt_fixed_header_rule_violation_def Let_def)
qed

text \<open>
  C1 (the code departs from the claim). The buffer \<open>[0x80, 0x00]\<close> is a complete
  SUBSCRIBE header with the flags 0000 and no payload. The claim wants it refused with
  \<^verbatim>\<open>MQTT_ERROR_CONTROL_INVALID_FLAGS\<close>, since SUBSCRIBE requires the flags 0010 under
  the mask 1111. The code accepts it and reports 2 bytes consumed.
\<close>

theorem unpack_fixed_header_subscribe_flags_0000:
  "mqtt_unpack_fixed_header (Some r) (Some [0x80, 0x00]) 2 =
     (Inr 2, Some (r\<lparr>fixed_header :=
        \<lparr>control_type = MQTT_CONTROL_SUBSCRIBE, control_flags = 0, remaining_length = 0\<rparr>\<rparr>))"
  by (simp add: mqtt_unpack_fixed_header_def unpack_remaining_length.simps shl_int_def Let_def
      mqtt_fixed_header_rule_violation_def control_type_is_valid_def required_flags_def
      mask_required_flags_def MQTT_CONTROL_SUBSCRIBE_def)

text \<open>The same header with the flags 0011 is refused: the masked difference is 1.\<close>

lemma unpack_fixed_header_subscribe_flags_0011:
  "fst (mqtt_unpack_fixed_header (Some r) (Some [0x83, 0x00]) 2) =
     Inl MQTT_ERROR_CONTROL_INVALID_FLAGS"
  by (simp add: mqtt_unpack_fixed_header_def unpack_remaining_length.simps shl_int_def Let_def
      mqtt_fixed_header_rule_violation_def control_type_is_valid_def required_flags_def
      mask_required_flags_def)

subsection \<open>The bytes of the remaining length\<close>

lemma pack_4_too_long:
  assumes "mqtt_fixed_header_rule_violation x = None" "2097151 < unat (remaining_length x)"
    "unat (remaining_length x) \<le> 268435455" "5 \<le> unat bufsz"
  shows "mqtt_pack_fixed_header (Some b) bufsz (Some x) =
    (Inr 0, Some (b[0 := hdr_byte x, 1 := ucast (remaining_length x AND 0x7F) OR 0x80,
                    2 := ucast (drop_bit 7 (remaining_length x) AND 0x7F) OR 0x80,
                    3 := ucast (drop_bit 14 (remaining_length x) AND 0x7F) OR 0x80,
                    4 := ucast (drop_bit 21 (remaining_length x) AND 0x7F)]))"
proof -
  have bs: "unat bufsz < 65536" using unsigned_less [of bufsz, where 'a = nat] by simp
  have nz: "bufsz \<noteq> 0" using assms(4) by auto
  have u1: "unat (bufsz - 1) = unat bufsz - 1" using assms(4) by (simp add: unat16_sub)
  have u2: "unat (bufsz - 2) = unat bufsz - 2" using assms(4) by (simp add: unat16_sub)
  have u3: "unat (bufsz - 3) = unat bufsz - 3" using assms(4) by (simp add: unat16_sub)
  have u5: "unat (bufsz - 5) = unat bufsz - 5" using assms(4) by (simp add: unat16_sub)
  have four: "(4 :: nat) = Suc (Suc (Suc (Suc 0)))" by simp
  have d21: "unat (drop_bit 21 (remaining_length x)) = unat (remaining_length x) div 2097152"
    by (simp add: unat_drop_bit_eq drop_bit_eq_div unat_div)
  have l: "pack_remaining_length (b[0 := hdr_byte x]) 0 bufsz (remaining_length x) =
           (False, b[0 := hdr_byte x, Suc 0 := ucast (remaining_length x AND 0x7F) OR 0x80,
                     Suc (Suc 0) := ucast (drop_bit 7 (remaining_length x) AND 0x7F) OR 0x80,
                     Suc (Suc (Suc 0)) := ucast (drop_bit 14 (remaining_length x) AND 0x7F) OR 0x80,
                     Suc (Suc (Suc (Suc 0))) := ucast (drop_bit 21 (remaining_length x) AND 0x7F)],
            Suc (Suc (Suc (Suc 0))), bufsz - 4)"
    using assms u1 u2 u3
    by (subst pack_rl_more, simp add: gt127_iff, simp,
        subst pack_rl_more, simp add: gt127_iff unat_drop7, simp,
        subst pack_rl_more, simp add: gt127_iff unat_drop7, simp, subst pack_rl_last)
       (auto simp: le127_iff unat_drop7 d21)
  have l': "pack_remaining_length (b[0 := hdr_byte x]) 0 bufsz (remaining_length x) =
           (False, b[0 := hdr_byte x, 1 := ucast (remaining_length x AND 0x7F) OR 0x80,
                     2 := ucast (drop_bit 7 (remaining_length x) AND 0x7F) OR 0x80,
                     3 := ucast (drop_bit 14 (remaining_length x) AND 0x7F) OR 0x80,
                     4 := ucast (drop_bit 21 (remaining_length x) AND 0x7F)],
            4, bufsz - 4)"
    using l by (simp add: numeral_2_eq_2 numeral_3_eq_3 four)
  show ?thesis
    using assms nz l' u5 bs
    by (simp add: mqtt_pack_fixed_header_def Let_def hdr_byte_def [symmetric] ucast16_less)
qed

lemma pack_beyond_uint16:
  assumes "mqtt_fixed_header_rule_violation x = None" "65535 < unat (remaining_length x)"
  shows "fst (mqtt_pack_fixed_header (Some b) bufsz (Some x)) = Inr 0"
proof -
  have "unat w < unat (remaining_length x)" for w :: uint16_t
    using unsigned_less [of w, where 'a = nat] assms(2) by simp
  then show ?thesis
    using assms(1)
    by (simp add: mqtt_pack_fixed_header_def Let_def ucast16_less split: prod.splits bool.splits)
qed

text \<open>
  C3, the claim as stated fails: for the remaining length \<open>2^28\<close>, which needs a fifth
  length byte, \<^verbatim>\<open>mqtt_pack_fixed_header\<close> writes the five bytes and returns 0, the
  value for a buffer that is too small; it does not return
  \<^verbatim>\<open>MQTT_ERROR_INVALID_REMAINING_LENGTH\<close>.
\<close>

theorem pack_fixed_header_no_invalid_remaining_length:
  "mqtt_pack_fixed_header (Some [0, 0, 0, 0, 0, 0, 0, 0]) 65535
      (Some \<lparr>control_type = MQTT_CONTROL_PUBLISH, control_flags = 0,
             remaining_length = 2 ^ 28\<rparr>)
    = (Inr 0, Some [0x30, 0x80, 0x80, 0x80, 0x80, 0x01, 0, 0])
   \<and> fst (mqtt_pack_fixed_header (Some [0, 0, 0, 0, 0, 0, 0, 0]) 65535
      (Some \<lparr>control_type = MQTT_CONTROL_PUBLISH, control_flags = 0,
             remaining_length = 2 ^ 28\<rparr>))
    \<noteq> Inl MQTT_ERROR_INVALID_REMAINING_LENGTH"
  by (simp add: mqtt_pack_fixed_header_def pack_remaining_length.simps Let_def
      mqtt_fixed_header_rule_violation_def control_type_is_valid_def required_flags_def
      mask_required_flags_def MQTT_CONTROL_PUBLISH_def)

text \<open>
  C3 as amended. For a header with a legal type and flags, and a buffer of at least five
  bytes whose declared size \<^verbatim>\<open>bufsz\<close> covers the header and the declared remaining
  length, \<^verbatim>\<open>mqtt_pack_fixed_header\<close> writes, after the first byte, exactly 1, 1, 2, 2
  and 3 length bytes for the remaining lengths 0, 127, 128, 16383 and 16384 and returns
  the size of the header. For \<open>2^28 - 1\<close> it writes the four length bytes
  \<open>FF FF FF 7F\<close> and returns 0, since no \<^verbatim>\<open>uint16_t\<close> size covers that remaining
  length. For every remaining length above \<open>2^28 - 1\<close> it returns 0, whatever the
  buffer: there is no check of the remaining length in the packing function.
\<close>

theorem pack_fixed_header_remaining_length:
  assumes "mqtt_fixed_header_rule_violation
             \<lparr>control_type = t, control_flags = f, remaining_length = 0\<rparr> = None"
  shows
   "(2 \<le> unat bufsz \<longrightarrow>
       mqtt_pack_fixed_header (Some b) bufsz
         (Some \<lparr>control_type = t, control_flags = f, remaining_length = 0\<rparr>)
       = (Inr 2, Some (b[0 := hdr_byte \<lparr>control_type = t, control_flags = f, remaining_length = 0\<rparr>,
                         1 := 0x00])))
  \<and> (129 \<le> unat bufsz \<longrightarrow>
       mqtt_pack_fixed_header (Some b) bufsz
         (Some \<lparr>control_type = t, control_flags = f, remaining_length = 127\<rparr>)
       = (Inr 2, Some (b[0 := hdr_byte \<lparr>control_type = t, control_flags = f, remaining_length = 0\<rparr>,
                         1 := 0x7F])))
  \<and> (131 \<le> unat bufsz \<longrightarrow>
       mqtt_pack_fixed_header (Some b) bufsz
         (Some \<lparr>control_type = t, control_flags = f, remaining_length = 128\<rparr>)
       = (Inr 3, Some (b[0 := hdr_byte \<lparr>control_type = t, control_flags = f, remaining_length = 0\<rparr>,
                         1 := 0x80, 2 := 0x01])))
  \<and> (16386 \<le> unat bufsz \<longrightarrow>
       mqtt_pack_fixed_header (Some b) bufsz
         (Some \<lparr>control_type = t, control_flags = f, remaining_length = 16383\<rparr>)
       = (Inr 3, Some (b[0 := hdr_byte \<lparr>control_type = t, control_flags = f, remaining_length = 0\<rparr>,
                         1 := 0xFF, 2 := 0x7F])))
  \<and> (16388 \<le> unat bufsz \<longrightarrow>
       mqtt_pack_fixed_header (Some b) bufsz
         (Some \<lparr>control_type = t, control_flags = f, remaining_length = 16384\<rparr>)
       = (Inr 4, Some (b[0 := hdr_byte \<lparr>control_type = t, control_flags = f, remaining_length = 0\<rparr>,
                         1 := 0x80, 2 := 0x80, 3 := 0x01])))
  \<and> (5 \<le> unat bufsz \<longrightarrow>
       mqtt_pack_fixed_header (Some b) bufsz
         (Some \<lparr>control_type = t, control_flags = f, remaining_length = 2 ^ 28 - 1\<rparr>)
       = (Inr 0, Some (b[0 := hdr_byte \<lparr>control_type = t, control_flags = f, remaining_length = 0\<rparr>,
                         1 := 0xFF, 2 := 0xFF, 3 := 0xFF, 4 := 0x7F])))
  \<and> (\<forall>rl. 2 ^ 28 - 1 < rl \<longrightarrow>
       fst (mqtt_pack_fixed_header (Some b) bufsz
         (Some \<lparr>control_type = t, control_flags = f, remaining_length = rl\<rparr>)) = Inr 0)"
proof -
  let ?x = "\<lambda>rl. \<lparr>control_type = t, control_flags = f, remaining_length = rl\<rparr>"
  have rv: "mqtt_fixed_header_rule_violation (?x rl) = None" for rl
    using assms by (simp add: mqtt_fixed_header_rule_violation_def)
  have c0: "2 \<le> unat bufsz \<Longrightarrow> mqtt_pack_fixed_header (Some b) bufsz (Some (?x 0))
       = (Inr 2, Some (b[0 := hdr_byte (?x 0), 1 := 0x00]))"
    using pack_1 [OF rv [of 0], of bufsz b] by (simp add: hdr_byte_def)
  have c127: "129 \<le> unat bufsz \<Longrightarrow> mqtt_pack_fixed_header (Some b) bufsz (Some (?x 127))
       = (Inr 2, Some (b[0 := hdr_byte (?x 0), 1 := 0x7F]))"
    using pack_1 [OF rv [of 127], of bufsz b] by (simp add: hdr_byte_def)
  have c128: "131 \<le> unat bufsz \<Longrightarrow> mqtt_pack_fixed_header (Some b) bufsz (Some (?x 128))
       = (Inr 3, Some (b[0 := hdr_byte (?x 0), 1 := 0x80, 2 := 0x01]))"
    using pack_2 [OF rv [of 128], of bufsz b] by (simp add: hdr_byte_def)
  have c16383: "16386 \<le> unat bufsz \<Longrightarrow> mqtt_pack_fixed_header (Some b) bufsz (Some (?x 16383))
       = (Inr 3, Some (b[0 := hdr_byte (?x 0), 1 := 0xFF, 2 := 0x7F]))"
    using pack_2 [OF rv [of 16383], of bufsz b] by (simp add: hdr_byte_def)
  have c16384: "16388 \<le> unat bufsz \<Longrightarrow> mqtt_pack_fixed_header (Some b) bufsz (Some (?x 16384))
       = (Inr 4, Some (b[0 := hdr_byte (?x 0), 1 := 0x80, 2 := 0x80, 3 := 0x01]))"
    using pack_3 [OF rv [of 16384], of bufsz b] by (simp add: hdr_byte_def)
  have cmax: "5 \<le> unat bufsz \<Longrightarrow> mqtt_pack_fixed_header (Some b) bufsz (Some (?x (2 ^ 28 - 1)))
       = (Inr 0, Some (b[0 := hdr_byte (?x 0), 1 := 0xFF, 2 := 0xFF, 3 := 0xFF, 4 := 0x7F]))"
    using pack_4_too_long [OF rv [of "2 ^ 28 - 1"], of bufsz b] by (simp add: hdr_byte_def)
  have big: "fst (mqtt_pack_fixed_header (Some b) bufsz (Some (?x rl))) = Inr 0"
    if "2 ^ 28 - 1 < rl" for rl
  proof -
    have "unat (2 ^ 28 - 1 :: uint32_t) < unat rl" using that by (simp only: word_less_nat_alt)
    then have "65535 < unat (remaining_length (?x rl))" by simp
    then show ?thesis by (rule pack_beyond_uint16 [OF rv])
  qed
  show ?thesis using c0 c127 c128 c16383 c16384 cmax big by blast
qed

theorem pack_fixed_header_remaining_length_witness:
  "mqtt_fixed_header_rule_violation
      \<lparr>control_type = MQTT_CONTROL_PUBLISH, control_flags = 0, remaining_length = 0\<rparr> = None
   \<and> 16388 \<le> unat (65535 :: uint16_t)
   \<and> mqtt_pack_fixed_header (Some [0, 0, 0, 0, 0, 0]) 65535
        (Some \<lparr>control_type = MQTT_CONTROL_PUBLISH, control_flags = 0, remaining_length = 16384\<rparr>)
      = (Inr 4, Some [0x30, 0x80, 0x80, 0x01, 0, 0])
   \<and> mqtt_pack_fixed_header (Some [0, 0, 0, 0, 0, 0]) 65535
        (Some \<lparr>control_type = MQTT_CONTROL_PUBLISH, control_flags = 0, remaining_length = 2 ^ 28 - 1\<rparr>)
      = (Inr 0, Some [0x30, 0xFF, 0xFF, 0xFF, 0x7F, 0])
   \<and> (2 ^ 28 - 1 :: uint32_t) < 2 ^ 28
   \<and> fst (mqtt_pack_fixed_header (Some [0, 0, 0, 0, 0, 0]) 65535
        (Some \<lparr>control_type = MQTT_CONTROL_PUBLISH, control_flags = 0, remaining_length = 2 ^ 28\<rparr>))
      = Inr 0"
proof -
  have h: "mqtt_fixed_header_rule_violation
      \<lparr>control_type = MQTT_CONTROL_PUBLISH, control_flags = 0, remaining_length = 0\<rparr> = None"
    by (simp add: mqtt_fixed_header_rule_violation_def control_type_is_valid_def
        required_flags_def mask_required_flags_def MQTT_CONTROL_PUBLISH_def)
  have s: "(2 ^ 28 - 1 :: uint32_t) < 2 ^ 28" by simp
  show ?thesis
    using pack_fixed_header_remaining_length [OF h, of 65535 "[0, 0, 0, 0, 0, 0]"] h s
    by (simp add: hdr_byte_def MQTT_CONTROL_PUBLISH_def)
qed

section \<open>Properties of the send queue\<close>

subsection \<open>The scan and the move of \<^verbatim>\<open>mqtt_mq_clean\<close>\<close>

lemma clean_scan_skip:
  "j \<le> k \<Longrightarrow> k \<le> queue_tail q \<Longrightarrow> (\<And>i. j \<le> i \<Longrightarrow> i < k \<Longrightarrow> state (slots q i) = MQTT_QUEUED_COMPLETE)
   \<Longrightarrow> clean_scan q j = clean_scan q k"
proof (induction "k - j" arbitrary: j)
  case 0
  then show ?case by simp
next
  case (Suc d)
  then have "j < k" by simp
  then have s: "state (slots q j) = MQTT_QUEUED_COMPLETE" "j < queue_tail q"
    using Suc.prems by auto
  have "clean_scan q j = clean_scan q (j + 1)"
    using s by (subst clean_scan.simps) (simp add: mqtt_mq_get_def)
  also have "\<dots> = clean_scan q k"
    using Suc.hyps Suc.prems \<open>j < k\<close> by (intro Suc.hyps(1)) auto
  finally show ?case .
qed

lemma clean_scan_stop:
  "k < queue_tail q \<Longrightarrow> state (slots q k) \<noteq> MQTT_QUEUED_COMPLETE \<Longrightarrow> clean_scan q k = k"
  by (subst clean_scan.simps) (simp add: mqtt_mq_get_def)

lemma clean_scan_end: "clean_scan q (queue_tail q) = queue_tail q"
  by (subst clean_scan.simps) simp

lemma contiguous_append:
  "contiguous a (xs @ ys) c \<longleftrightarrow>
     contiguous a xs (a + total_size xs) \<and> contiguous (a + total_size xs) ys c"
  by (induction xs arbitrary: a) (auto simp: total_size_def add.assoc)

lemma contiguous_total: "contiguous a ms c \<Longrightarrow> c = a + total_size ms"
proof (induction ms arbitrary: a)
  case Nil
  then show ?case by (simp add: total_size_def)
next
  case (Cons x xs)
  then have "c = (a + uint (size_m x)) + total_size xs" by simp
  then show ?case by (simp add: total_size_def)
qed

lemma total_size_nonneg: "0 \<le> total_size ms"
  by (induction ms) (auto simp: total_size_def)

lemma contiguous_bounds:
  "contiguous a ms c \<Longrightarrow> m \<in> set ms \<Longrightarrow> a \<le> start m \<and> start m + uint (size_m m) \<le> c"
proof (induction ms arbitrary: a)
  case Nil
  then show ?case by simp
next
  case (Cons x xs)
  have c: "c = a + uint (size_m x) + total_size xs"
    using Cons.prems(1) contiguous_total [of "a + uint (size_m x)" xs c] by simp
  show ?case
  proof (cases "m = x")
    case True
    then show ?thesis using Cons.prems c total_size_nonneg [of xs] by simp
  next
    case False
    then have "m \<in> set xs" using Cons.prems by simp
    then have "a + uint (size_m x) \<le> start m \<and> start m + uint (size_m m) \<le> c"
      using Cons.IH [of "a + uint (size_m x)"] Cons.prems by simp
    then show ?thesis by (smt (verit) uint_ge_0)
  qed
qed

lemma write_bytes_length [simp]: "length (write_bytes m i xs) = length m"
  by (induction xs arbitrary: m i) auto

lemma write_bytes_nth:
  "j < length m \<Longrightarrow> write_bytes m i xs ! j =
     (if i \<le> j \<and> j < i + length xs then xs ! (j - i) else m ! j)"
proof (induction xs arbitrary: m i)
  case Nil
  then show ?case by auto
next
  case (Cons x xs)
  show ?case
    using Cons.prems Cons.IH [of "m[i := x]" "Suc i"]
    by (auto simp: nth_list_update nth_Cons' Suc_diff_le)
qed


lemma write_bytes_front:
  "length xs \<le> length m \<Longrightarrow> write_bytes m 0 xs = xs @ drop (length xs) m"
  by (rule nth_equalityI) (auto simp: write_bytes_nth nth_append)

lemma memmove_front_frame:
  assumes "s + n \<le> length m" "a + len \<le> n"
  shows "take len (drop a (memmove_front m s n)) = take len (drop (s + a) m)"
proof -
  have l: "length (take n (drop s m)) = n" using assms by simp
  have "memmove_front m s n = take n (drop s m) @ drop n m"
    unfolding memmove_front_def using assms l by (subst write_bytes_front) auto
  then have "take len (drop a (memmove_front m s n)) = take len (drop a (take n (drop s m)))"
    using assms l by simp
  also have "\<dots> = take len (drop (s + a) m)"
    using assms by (simp add: drop_take add.commute)
  finally show ?thesis .
qed

lemma mq_entries_nth: "i < queue_tail q \<Longrightarrow> mq_entries q ! i = slots q i"
  by (simp add: mq_entries_def mqtt_mq_get_def mqtt_mq_length_def)

lemma mq_entries_length [simp]: "length (mq_entries q) = queue_tail q"
  by (simp add: mq_entries_def mqtt_mq_length_def)

lemma mq_entries_drop: "drop k (mq_entries q) = map (slots q) [k..<queue_tail q]"
  by (simp add: mq_entries_def mqtt_mq_get_def [abs_def] mqtt_mq_length_def drop_map)

lemma clean_all_complete:
  assumes "list_all is_complete (mq_entries q)"
  shows "curr (mqtt_mq_clean currsz q) = 0 \<and> queue_tail (mqtt_mq_clean currsz q) = 0"
proof -
  have "\<And>i. i < queue_tail q \<Longrightarrow> state (slots q i) = MQTT_QUEUED_COMPLETE"
    using assms by (simp add: list_all_length mq_entries_nth is_complete_def)
  then have "clean_scan q 0 = clean_scan q (queue_tail q)"
    by (intro clean_scan_skip) auto
  then have "clean_scan q 0 = queue_tail q" by (simp add: clean_scan_end)
  then show ?thesis by (simp add: mqtt_mq_clean_def Let_def)
qed

lemma clean_prefix:
  fixes currsz :: "mqtt_message_queue \<Rightarrow> uint16_t"
  assumes wf: "mq_wf q" and k: "k < queue_tail q"
    and compl: "list_all is_complete (take k (mq_entries q))"
    and pending: "\<not> is_complete (mq_entries q ! k)"
  defines "removed \<equiv> total_size (take k (mq_entries q))"
  defines "q' \<equiv> mqtt_mq_clean currsz q"
  shows "curr q' = curr q - removed"
    and "mq_entries q' = map (rebase removed) (drop k (mq_entries q))"
    and "map (frame_bytes q') (mq_entries q') = map (frame_bytes q) (drop k (mq_entries q))"
proof -
  let ?es = "mq_entries q"
  let ?N = "queue_tail q"
  have cont: "contiguous 0 ?es (curr q)" and cl: "curr q \<le> int (length (mem q))"
    and ml: "length (mem q) < 65536"
    using wf by (simp_all add: mq_wf_def)
  have "\<And>i. i < k \<Longrightarrow> state (slots q i) = MQTT_QUEUED_COMPLETE"
    using compl k by (simp add: list_all_length mq_entries_nth is_complete_def)
  then have "clean_scan q 0 = clean_scan q k"
    using k by (intro clean_scan_skip) auto
  moreover have "clean_scan q k = k"
    using k pending by (intro clean_scan_stop) (simp_all add: mq_entries_nth is_complete_def)
  ultimately have scan: "clean_scan q 0 = k" by simp
  have split: "?es = take k ?es @ drop k ?es" by simp
  have c2: "contiguous removed (drop k ?es) (curr q)"
    using cont contiguous_append [of 0 "take k ?es" "drop k ?es" "curr q"]
    by (simp add: removed_def)
  have dk: "drop k ?es = slots q k # drop (Suc k) ?es"
    using k Cons_nth_drop_Suc [of k ?es] by (simp add: mq_entries_nth)
  have "contiguous removed (slots q k # drop (Suc k) ?es) (curr q)"
    using c2 by (simp only: dk)
  then have st: "start (slots q k) = removed" by simp
  have r0: "0 \<le> removed" unfolding removed_def by (rule total_size_nonneg)
  have rc: "removed \<le> curr q"
    using contiguous_total [OF c2] total_size_nonneg [of "drop k ?es"] by simp
  have bnd: "removed \<le> start m \<and> start m + uint (size_m m) \<le> curr q"
    if "m \<in> set (drop k ?es)" for m
    using contiguous_bounds [OF c2 that] .
  have same: "q' = q" "removed = 0" if "k = 0"
    using that scan k by (simp_all add: q'_def removed_def mqtt_mq_clean_def Let_def total_size_def)
  have u16: "uint (word_of_int v :: uint16_t) = v" if "0 \<le> v" "v < 65536" for v
    unfolding uint_word_of_int_eq using that by (intro take_bit_int_eq_self) simp_all
  have un: "uint (word_of_int (curr q - removed) :: uint16_t) = curr q - removed"
    using r0 rc cl ml by (intro u16) simp_all
  have ur: "uint (word_of_int removed :: uint16_t) = removed"
    using r0 rc cl ml by (intro u16) simp_all
  have unat_n: "unat (word_of_int (curr q - removed) :: uint16_t) = nat (curr q - removed)"
    using un by (simp add: unat_eq_nat_uint)
  have moved: "q' = (let mq1 = q\<lparr>mem := memmove_front (mem q) (nat removed) (nat (curr q - removed)),
        curr := curr q - removed, queue_tail := ?N - k,
        slots := (\<lambda>i. if i < ?N - k then rebase removed (slots q (i + k)) else slots q i)\<rparr>
      in mq1\<lparr>curr_sz := currsz mq1\<rparr>)" if "0 < k"
  proof -
    have f: "(\<lambda>i. if i < ?N - k
              then (if i \<le> ?N - 1 - k then slots q (i + k) else slots q i)
                     \<lparr>start := start (if i \<le> ?N - 1 - k then slots q (i + k) else slots q i) - removed\<rparr>
              else (if i \<le> ?N - 1 - k then slots q (i + k) else slots q i))
          = (\<lambda>i. if i < ?N - k then rebase removed (slots q (i + k)) else slots q i)"
      using k by (auto simp: fun_eq_iff rebase_def)
    have t: "?N - 1 - k + 1 = ?N - k" using k by simp
    have nk: "(?N \<le> k) = False" "(k = 0) = False" using that k by simp_all
    show ?thesis
      unfolding q'_def mqtt_mq_clean_def Let_def scan mqtt_mq_get_def st nk if_False
        un ur unat_n f t ..
  qed
  show "curr q' = curr q - removed"
  proof (cases "k = 0")
    case True
    then show ?thesis using same by simp
  next
    case False
    then show ?thesis using moved by (simp add: Let_def)
  qed
  have rb0: "rebase 0 = (\<lambda>m. m)" by (simp add: fun_eq_iff rebase_def)
  show e: "mq_entries q' = map (rebase removed) (drop k ?es)"
  proof (cases "k = 0")
    case True
    then show ?thesis using same by (simp add: rb0)
  next
    case False
    then have "mq_entries q' = map (\<lambda>i. rebase removed (slots q (i + k))) [0..<?N - k]"
      using moved by (simp add: Let_def mq_entries_def mqtt_mq_get_def [abs_def] mqtt_mq_length_def)
    also have "\<dots> = map (rebase removed) (map (slots q) [k..<?N])"
    proof -
      have "[k..<?N] = map (\<lambda>i. i + k) [0..<?N - k]"
        using k map_add_upt [of k "?N - k"] by simp
      then show ?thesis by (simp only: map_map o_def)
    qed
    finally show ?thesis by (simp add: mq_entries_drop)
  qed
  have fb: "frame_bytes q' (rebase removed m) = frame_bytes q m" if "m \<in> set (drop k ?es)" for m
  proof (cases "k = 0")
    case True
    then show ?thesis using same by (simp add: rb0)
  next
    case False
    have b: "removed \<le> start m" "start m + uint (size_m m) \<le> curr q" using bnd [OF that] by simp_all
    have m': "mem q' = memmove_front (mem q) (nat removed) (nat (curr q - removed))"
      using moved False by (simp add: Let_def)
    have "take (unat (size_m m)) (drop (nat (start m - removed)) (mem q')) =
          take (unat (size_m m)) (drop (nat removed + nat (start m - removed)) (mem q))"
    proof -
      have sz: "int (unat (size_m m)) = uint (size_m m)" by simp
      have 1: "nat removed + nat (curr q - removed) \<le> length (mem q)"
        using r0 rc cl by linarith
      have 2: "nat (start m - removed) + unat (size_m m) \<le> nat (curr q - removed)"
        using b r0 sz by linarith
      show ?thesis unfolding m' by (rule memmove_front_frame [OF 1 2])
    qed
    moreover have "nat removed + nat (start m - removed) = nat (start m)"
      using b r0 by simp
    ultimately show ?thesis by (simp add: frame_bytes_def rebase_def)
  qed
  show "map (frame_bytes q') (mq_entries q') = map (frame_bytes q) (drop k ?es)"
    unfolding e using fb by (simp add: o_def)
qed

lemma upt_0_2: "[0..<2] = [0, 1]"
  by (simp add: numeral_2_eq_2)

lemma upt_0_3: "[0..<3] = [0, 1, 2]"
  by (simp add: numeral_3_eq_3)

text \<open>
  C4, the claim as stated fails. In \<open>queue_newest_complete\<close> two frames are registered:
  the older one (2 bytes) is unsent, the most recent one (3 bytes) is complete. The run of
  complete entries counted from the most recent entry has length 1 and the remaining
  entry is not complete, so the claim wants 3 bytes reclaimed. The scan of
  \<^verbatim>\<open>mqtt_mq_clean\<close> starts at \<^verbatim>\<open>mqtt_mq_get(mq, 0)\<close>, the oldest entry, stops there
  and leaves the queue as it is.
\<close>

theorem mq_clean_keeps_newest_complete:
  "mq_wf queue_newest_complete
   \<and> map is_complete (rev (mq_entries queue_newest_complete)) = [True, False]
   \<and> mqtt_mq_clean (currsz_spec 12) queue_newest_complete = queue_newest_complete
   \<and> curr (mqtt_mq_clean (currsz_spec 12) queue_newest_complete) = 5"
proof -
  have s: "clean_scan queue_newest_complete 0 = 0"
    by (subst clean_scan.simps) (simp add: queue_newest_complete_def mqtt_mq_get_def)
  have e: "mq_entries queue_newest_complete =
      [\<lparr>start = 0, size_m = 2, state = MQTT_QUEUED_UNSENT, time_sent = 0,
          control_type_m = MQTT_CONTROL_SUBSCRIBE, packet_id = 7\<rparr>,
       \<lparr>start = 2, size_m = 3, state = MQTT_QUEUED_COMPLETE, time_sent = 0,
          control_type_m = MQTT_CONTROL_PUBLISH, packet_id = 9\<rparr>]"
    by (simp add: mq_entries_def mqtt_mq_get_def mqtt_mq_length_def queue_newest_complete_def
        upt_0_2)
  have w: "mq_wf queue_newest_complete"
    unfolding mq_wf_def e by (simp add: queue_newest_complete_def)
  have c: "mqtt_mq_clean (currsz_spec 12) queue_newest_complete = queue_newest_complete"
    by (simp add: mqtt_mq_clean_def s Let_def) (simp add: queue_newest_complete_def)
  show ?thesis
    unfolding c using w by (simp add: e is_complete_def) (simp add: queue_newest_complete_def)
qed

text \<open>
  C4 as amended: the run is counted from the oldest entry. Let the queue be as
  \<^verbatim>\<open>mqtt_mq_register\<close> builds it, let its \<open>k\<close> oldest entries be complete and the next
  one not. Then \<^verbatim>\<open>mqtt_mq_clean\<close> moves \<^verbatim>\<open>curr\<close> back by exactly the sum of the sizes
  of these \<open>k\<close> entries, keeps the other entries in their order, each with its fields
  unchanged but for \<^verbatim>\<open>start\<close>, which is rebased by the amount removed, and each still
  refers to the same bytes. When every entry is complete the queue is reset to empty:
  \<^verbatim>\<open>curr\<close> is \<^verbatim>\<open>mem_start\<close> and \<^verbatim>\<open>queue_tail\<close> is \<^verbatim>\<open>mem_end\<close>.
\<close>

theorem mq_clean_oldest_run:
  fixes currsz :: "mqtt_message_queue \<Rightarrow> uint16_t"
  shows
   "(mq_wf q \<and> k < queue_tail q \<and> list_all is_complete (take k (mq_entries q))
       \<and> \<not> is_complete (mq_entries q ! k) \<longrightarrow>
       curr (mqtt_mq_clean currsz q) = curr q - total_size (take k (mq_entries q))
     \<and> mq_entries (mqtt_mq_clean currsz q) =
         map (rebase (total_size (take k (mq_entries q)))) (drop k (mq_entries q))
     \<and> map (frame_bytes (mqtt_mq_clean currsz q)) (mq_entries (mqtt_mq_clean currsz q)) =
         map (frame_bytes q) (drop k (mq_entries q)))
  \<and> (list_all is_complete (mq_entries q) \<longrightarrow>
       curr (mqtt_mq_clean currsz q) = 0 \<and> queue_tail (mqtt_mq_clean currsz q) = 0)"
  using clean_prefix [of q k currsz] clean_all_complete [of q currsz] by blast

theorem mq_clean_oldest_run_witness:
  "mq_wf queue_oldest_complete \<and> 1 < queue_tail queue_oldest_complete
   \<and> list_all is_complete (take 1 (mq_entries queue_oldest_complete))
   \<and> \<not> is_complete (mq_entries queue_oldest_complete ! 1)
   \<and> total_size (take 1 (mq_entries queue_oldest_complete)) = 2
   \<and> curr queue_oldest_complete = 6
   \<and> curr (mqtt_mq_clean (currsz_spec 12) queue_oldest_complete) = 4
   \<and> map start (mq_entries (mqtt_mq_clean (currsz_spec 12) queue_oldest_complete)) = [0, 3]
   \<and> map (frame_bytes (mqtt_mq_clean (currsz_spec 12) queue_oldest_complete))
         (mq_entries (mqtt_mq_clean (currsz_spec 12) queue_oldest_complete)) = [[3, 4, 5], [6]]
   \<and> list_all is_complete (mq_entries queue_all_complete)
   \<and> curr queue_all_complete = 5
   \<and> curr (mqtt_mq_clean (currsz_spec 12) queue_all_complete) = 0
   \<and> queue_tail (mqtt_mq_clean (currsz_spec 12) queue_all_complete) = 0"
proof -
  let ?q = queue_oldest_complete
  have e: "mq_entries ?q =
      [\<lparr>start = 0, size_m = 2, state = MQTT_QUEUED_COMPLETE, time_sent = 0,
          control_type_m = MQTT_CONTROL_PUBLISH, packet_id = 7\<rparr>,
       \<lparr>start = 2, size_m = 3, state = MQTT_QUEUED_AWAITING_ACK, time_sent = 0,
          control_type_m = MQTT_CONTROL_SUBSCRIBE, packet_id = 9\<rparr>,
       \<lparr>start = 5, size_m = 1, state = MQTT_QUEUED_COMPLETE, time_sent = 0,
          control_type_m = MQTT_CONTROL_PUBLISH, packet_id = 11\<rparr>]"
    by (simp add: mq_entries_def mqtt_mq_get_def mqtt_mq_length_def queue_oldest_complete_def
        upt_0_3)
  have h1: "mq_wf ?q" unfolding mq_wf_def e by (simp add: queue_oldest_complete_def)
  have h2: "1 < queue_tail ?q" by (simp add: queue_oldest_complete_def)
  have h3: "list_all is_complete (take 1 (mq_entries ?q))" by (simp add: e is_complete_def)
  have h4: "\<not> is_complete (mq_entries ?q ! 1)" by (simp add: e is_complete_def)
  have t: "total_size (take 1 (mq_entries ?q)) = 2" by (simp add: e total_size_def)
  have d: "drop 1 (mq_entries ?q) =
      [\<lparr>start = 2, size_m = 3, state = MQTT_QUEUED_AWAITING_ACK, time_sent = 0,
          control_type_m = MQTT_CONTROL_SUBSCRIBE, packet_id = 9\<rparr>,
       \<lparr>start = 5, size_m = 1, state = MQTT_QUEUED_COMPLETE, time_sent = 0,
          control_type_m = MQTT_CONTROL_PUBLISH, packet_id = 11\<rparr>]"
    by (simp add: e)
  have m: "mem ?q = [1, 2, 3, 4, 5, 6, 0, 0]" "curr ?q = 6"
    by (simp_all add: queue_oldest_complete_def)
  have a: "list_all is_complete (mq_entries queue_all_complete)"
    by (simp add: mq_entries_def mqtt_mq_get_def mqtt_mq_length_def queue_all_complete_def
        upt_0_2 is_complete_def)
  have ca: "curr queue_all_complete = 5" by (simp add: queue_all_complete_def)
  from mq_clean_oldest_run [of ?q 1 "currsz_spec 12"] h1 h2 h3 h4
  have r: "curr (mqtt_mq_clean (currsz_spec 12) ?q) = curr ?q - total_size (take 1 (mq_entries ?q))"
    "mq_entries (mqtt_mq_clean (currsz_spec 12) ?q) =
       map (rebase (total_size (take 1 (mq_entries ?q)))) (drop 1 (mq_entries ?q))"
    "map (frame_bytes (mqtt_mq_clean (currsz_spec 12) ?q)) (mq_entries (mqtt_mq_clean (currsz_spec 12) ?q)) =
       map (frame_bytes ?q) (drop 1 (mq_entries ?q))"
    by blast+
  from mq_clean_oldest_run [of queue_all_complete 0 "currsz_spec 12"] a
  have r': "curr (mqtt_mq_clean (currsz_spec 12) queue_all_complete) = 0"
    "queue_tail (mqtt_mq_clean (currsz_spec 12) queue_all_complete) = 0"
    by blast+
  have f: "map (frame_bytes ?q) (drop 1 (mq_entries ?q)) = [[3, 4, 5], [6]]"
    unfolding d by (simp add: frame_bytes_def m)
  have st: "map start (map (rebase 2) (drop 1 (mq_entries ?q))) = [0, 3]"
    unfolding d by (simp add: rebase_def)
  have c1: "curr (mqtt_mq_clean (currsz_spec 12) ?q) = 4"
    using r(1) t m(2) by simp
  have c2: "map start (mq_entries (mqtt_mq_clean (currsz_spec 12) ?q)) = [0, 3]"
    by (simp only: r(2) t st)
  have c3: "map (frame_bytes (mqtt_mq_clean (currsz_spec 12) ?q))
         (mq_entries (mqtt_mq_clean (currsz_spec 12) ?q)) = [[3, 4, 5], [6]]"
    by (simp only: r(3) f)
  show ?thesis
    using h1 h2 h3 h4 t m(2) c1 c2 c3 a ca r' by blast
qed

section \<open>The client\<close>

subsection \<open>Publishing into a queue that is nearly full\<close>

text \<open>
  C2 (the code departs from the claim). The PUBLISH frame for the topic \<open>t\<close> and a payload
  of 10 bytes has 15 bytes: 2 of fixed header, 3 of topic string, 10 of payload. On a
  client without error whose queue is empty and has 14 free bytes, one less than the frame
  needs, \<^verbatim>\<open>mqtt_pack_publish_request\<close> returns 0, its value for a buffer that is too
  small. The claim wants \<^verbatim>\<open>mqtt_publish\<close> to fail and to leave the registered messages
  as they are. The code tests only \<^verbatim>\<open>rv < 0\<close>: it registers a message of 0 bytes with
  the control type PUBLISH and returns \<^verbatim>\<open>MQTT_OK\<close>, and no error is stored. With 15
  free bytes the frame is registered whole, as the claim says.
\<close>

theorem publish_one_byte_short_returns_ok:
  "fst (mqtt_pack_publish_request (Some (replicate 15 0)) 15 (Some [0x74]) 0xB451 payload10 10 0)
     = Inr 15
   \<and> fst (mqtt_pack_publish_request (Some (replicate 14 0)) 14 (Some [0x74]) 0xB451 payload10 10 0)
     = Inr 0
   \<and> curr_sz (mq (idle_client 14)) = 14
   \<and> mq_entries (mq (idle_client 14)) = []
   \<and> (case mqtt_publish (currsz_spec 12) (idle_client 14) (Some [0x74]) payload10 10 0 of
         None \<Rightarrow> False
       | Some (rv, c) \<Rightarrow>
           rv = Inl MQTT_OK \<and> error c = Inl MQTT_OK
           \<and> mq_entries (mq c) =
               [\<lparr>start = 0, size_m = 0, state = MQTT_QUEUED_UNSENT, time_sent = 0,
                 control_type_m = MQTT_CONTROL_PUBLISH, packet_id = 0xB451\<rparr>])
   \<and> curr_sz (mq (idle_client 15)) = 15
   \<and> (case mqtt_publish (currsz_spec 12) (idle_client 15) (Some [0x74]) payload10 10 0 of
         None \<Rightarrow> False
       | Some (rv, c) \<Rightarrow>
           rv = Inl MQTT_OK \<and> error c = Inl MQTT_OK
           \<and> mq_entries (mq c) =
               [\<lparr>start = 0, size_m = 15, state = MQTT_QUEUED_UNSENT, time_sent = 0,
                 control_type_m = MQTT_CONTROL_PUBLISH, packet_id = 0xB451\<rparr>]
           \<and> map (frame_bytes (mq c)) (mq_entries (mq c)) =
               [[0x30, 13, 0, 1, 0x74, 1, 2, 3, 4, 5, 6, 7, 8, 9, 10]])"
  by code_simp

section \<open>Packet identifiers\<close>

subsection \<open>The shift register, bit by bit\<close>

lemma upt_0_16: "[0..<16] = [0, 1, 2, 3, 4, 5, 6, 7, 8, 9, 10, 11, 12, 13, 14, 15]"
  by (simp add: upt_rec)

lemma bit_int_0xB400: "bit (0xB400 :: int) n \<longleftrightarrow> n = 10 \<or> n = 12 \<or> n = 13 \<or> n = 15"
proof -
  have "(0xB400 :: int) = 2 ^ 10 + 2 ^ 12 + 2 ^ 13 + 2 ^ 15" by simp
  also have "\<dots> = 2 ^ 10 OR 2 ^ 12 OR 2 ^ 13 OR 2 ^ 15"
    by (simp add: disjunctive_add_eq_or bit_eq_iff bit_simps flip: or.assoc)
  finally have "(0xB400 :: int) = 2 ^ 10 OR 2 ^ 12 OR 2 ^ 13 OR 2 ^ 15" .
  then show ?thesis by (simp only: bit_or_iff bit_exp_iff) auto
qed

lemma lsb_bit: "((x :: uint16_t) AND 1 \<noteq> 0) = bit x 0"
  by (simp add: and_one_eq bit_0 odd_iff_mod_2_eq_one)

lemma lfsr_step_bit:
  "bit (lfsr_step x) n \<longleftrightarrow>
     n < 16 \<and> ((n < 15 \<and> bit x (Suc n)) \<noteq> (bit x 0 \<and> (n = 10 \<or> n = 12 \<or> n = 13 \<or> n = 15)))"
  by (auto simp: lfsr_step_def Let_def lsb_bit bit_simps bit_int_0xB400 dest: bit_imp_le_length)


lemma bits16_list: "bits16 x = [bit x 0, bit x 1, bit x 2, bit x 3, bit x 4, bit x 5, bit x 6, bit x 7,
    bit x 8, bit x 9, bit x 10, bit x 11, bit x 12, bit x 13, bit x 14, bit x 15]"
  by (simp add: bits16_def upt_0_16)

lemma bits16_step: "bits16 (lfsr_step x) = stepl (bits16 x)"
proof -
  have s: "Suc 0 = 1" "Suc 1 = 2" "Suc 2 = 3" "Suc 3 = 4" "Suc 4 = 5" "Suc 5 = 6" "Suc 6 = 7"
    "Suc 7 = 8" "Suc 8 = 9" "Suc 9 = 10" "Suc 10 = 11" "Suc 11 = 12" "Suc 12 = 13"
    "Suc 13 = 14" "Suc 14 = 15" by simp_all
  show ?thesis
    unfolding bits16_list [of "lfsr_step x"] bits16_list [of x] stepl.simps lfsr_step_bit s
    by auto
qed


lemma bits16_inj: "bits16 x = bits16 y \<Longrightarrow> x = y"
proof (rule bit_eqI)
  fix n
  assume a: "bits16 x = bits16 y"
  show "bit x n = bit y n"
  proof (cases "n < 16")
    case True
    then have "bits16 x ! n = bit x n" "bits16 y ! n = bit y n" by (simp_all add: bits16_def)
    then show ?thesis using a by simp
  next
    case False
    then show ?thesis using bit_imp_le_length [of x n] bit_imp_le_length [of y n] by auto
  qed
qed

lemma bits16_one: "bits16 1 = onel"
  by (simp add: bits16_def upt_0_16 onel_def bit_1_iff)

lemma stepl_inj16:
  "stepl [a0, a1, a2, a3, a4, a5, a6, a7, a8, a9, a10, a11, a12, a13, a14, a15] =
   stepl [b0, b1, b2, b3, b4, b5, b6, b7, b8, b9, b10, b11, b12, b13, b14, b15] \<Longrightarrow>
   [a0, a1, a2, a3, a4, a5, a6, a7, a8, a9, a10, a11, a12, a13, a14, a15] =
   [b0, b1, b2, b3, b4, b5, b6, b7, b8, b9, b10, b11, b12, b13, b14, b15]"
  by (simp only: stepl.simps list.inject) (elim conjE, simp, blast)

lemma lfsr_step_inj: "lfsr_step x = lfsr_step y \<Longrightarrow> x = y"
proof -
  assume "lfsr_step x = lfsr_step y"
  then have "stepl (bits16 x) = stepl (bits16 y)" by (simp only: bits16_step [symmetric])
  then have "bits16 x = bits16 y" unfolding bits16_list by (rule stepl_inj16)
  then show ?thesis by (rule bits16_inj)
qed

lemma lfsr_step_0: "lfsr_step 0 = 0"
  by (simp add: lfsr_step_def)

lemma lfsr_step_nonzero: "x \<noteq> 0 \<Longrightarrow> lfsr_step x \<noteq> 0"
  using lfsr_step_inj [of x 0] by (auto simp: lfsr_step_0)

subsection \<open>The orbit of 1\<close>

text \<open>
  The register is followed from 1 for 65534 steps, in 26 segments, on lists of bits: it
  does not come back to 1 on the way, and the next step gives 1. So the 65535 values
  it takes from 1 are distinct, and they are all the words other than 0.
\<close>

lemma chkl_numeral:
  "chkl (numeral n) x =
     (case chkl (pred_numeral n) x of None \<Rightarrow> None | Some y \<Rightarrow> chkl (pred_numeral n) y)"
  by (simp add: numeral_eq_Suc)

lemma chkl_sound:
  "chkl k (bits16 x) = Some ys \<Longrightarrow>
     ys = bits16 ((lfsr_step ^^ (2 ^ k)) x) \<and> (\<forall>i. 0 < i \<and> i \<le> 2 ^ k \<longrightarrow> (lfsr_step ^^ i) x \<noteq> 1)"
proof (induction k arbitrary: x ys)
  case 0
  then have ne: "bits16 (lfsr_step x) \<noteq> onel" and ys: "ys = bits16 (lfsr_step x)"
    by (auto simp: bits16_step Let_def split: if_splits)
  have f: "lfsr_step x \<noteq> 1" using ne bits16_one by auto
  have "(lfsr_step ^^ i) x \<noteq> 1" if "0 < i" "i \<le> 2 ^ 0" for i :: nat
  proof -
    have "i = Suc 0" using that by simp
    then show ?thesis using f by simp
  qed
  then show ?case using ys by simp
next
  case (Suc k)
  from Suc.prems obtain y1 where a: "chkl k (bits16 x) = Some y1" and b: "chkl k y1 = Some ys"
    by (auto split: option.splits)
  let ?x1 = "(lfsr_step ^^ (2 ^ k)) x"
  from Suc.IH [OF a] have y1: "y1 = bits16 ?x1"
    and n1: "\<And>i. 0 < i \<Longrightarrow> i \<le> 2 ^ k \<Longrightarrow> (lfsr_step ^^ i) x \<noteq> 1" by auto
  from Suc.IH [OF b [unfolded y1]] have ys: "ys = bits16 ((lfsr_step ^^ (2 ^ k)) ?x1)"
    and n2: "\<And>i. 0 < i \<Longrightarrow> i \<le> 2 ^ k \<Longrightarrow> (lfsr_step ^^ i) ?x1 \<noteq> 1" by auto
  have p: "(2 :: nat) ^ Suc k = 2 ^ k + 2 ^ k" by simp
  have "ys = bits16 ((lfsr_step ^^ (2 ^ Suc k)) x)"
    unfolding p funpow_add using ys by simp
  moreover have "(lfsr_step ^^ i) x \<noteq> 1" if i: "0 < i" "i \<le> 2 ^ Suc k" for i
  proof (cases "i \<le> 2 ^ k")
    case True
    then show ?thesis using n1 i by simp
  next
    case False
    then have j: "0 < i - 2 ^ k" "i - 2 ^ k \<le> 2 ^ k" and e: "i = (i - 2 ^ k) + 2 ^ k"
      using i by simp_all
    have "(lfsr_step ^^ i) x = (lfsr_step ^^ (i - 2 ^ k)) ?x1"
      by (subst e) (simp only: funpow_add o_apply)
    then show ?thesis using n2 [OF j] by simp
  qed
  ultimately show ?case by blast
qed

lemma orbit_extend:
  assumes "orbit_upto n L" "chkl k L = Some L'"
  shows "orbit_upto (n + 2 ^ k) L'"
proof -
  let ?y = "(lfsr_step ^^ n) 1"
  have L: "bits16 ?y = L" and no: "\<And>i. 0 < i \<Longrightarrow> i \<le> n \<Longrightarrow> (lfsr_step ^^ i) 1 \<noteq> 1"
    using assms(1) by (auto simp: orbit_upto_def list_all_iff)
  from chkl_sound [of k ?y L'] assms(2) L
  have L': "L' = bits16 ((lfsr_step ^^ (2 ^ k)) ?y)"
    and no': "\<And>i. 0 < i \<Longrightarrow> i \<le> 2 ^ k \<Longrightarrow> (lfsr_step ^^ i) ?y \<noteq> 1" by auto
  have c: "(lfsr_step ^^ (i + n)) 1 = (lfsr_step ^^ i) ?y" for i
    by (simp only: funpow_add o_apply)
  have "bits16 ((lfsr_step ^^ (n + 2 ^ k)) 1) = L'"
    using L' c [of "2 ^ k"] by (simp add: add.commute)
  moreover have "(lfsr_step ^^ i) 1 \<noteq> 1" if i: "0 < i" "i \<le> n + 2 ^ k" for i
  proof (cases "i \<le> n")
    case True
    then show ?thesis using no i by simp
  next
    case False
    then have j: "0 < i - n" "i - n \<le> 2 ^ k" and e: "i = (i - n) + n" using i by simp_all
    have "(lfsr_step ^^ i) 1 = (lfsr_step ^^ (i - n)) ?y" by (subst e) (rule c)
    then show ?thesis using no' [OF j] by simp
  qed
  ultimately show ?thesis by (auto simp: orbit_upto_def list_all_iff)
qed

lemma orbit_start: "orbit_upto 0 onel"
  by (simp add: orbit_upto_def bits16_one)

lemma orbit_seg_0:
  "chkl 12 [True, False, False, False, False, False, False, False, False, False, False, False, False, False, False, False] =
     Some [True, True, False, False, True, False, False, True, True, True, True, True, True, True, True, False]"
  by (simp add: chkl_numeral onel_def)

lemma orbit_seg_1:
  "chkl 12 [True, True, False, False, True, False, False, True, True, True, True, True, True, True, True, False] =
     Some [True, True, False, True, True, True, True, False, False, True, False, False, False, True, True, True]"
  by (simp add: chkl_numeral onel_def)

lemma orbit_seg_2:
  "chkl 12 [True, True, False, True, True, True, True, False, False, True, False, False, False, True, True, True] =
     Some [False, False, True, False, True, True, True, False, True, True, True, True, True, False, False, True]"
  by (simp add: chkl_numeral onel_def)

lemma orbit_seg_3:
  "chkl 12 [False, False, True, False, True, True, True, False, True, True, True, True, True, False, False, True] =
     Some [False, False, True, True, False, False, False, True, True, False, False, False, True, True, True, False]"
  by (simp add: chkl_numeral onel_def)

lemma orbit_seg_4:
  "chkl 12 [False, False, True, True, False, False, False, True, True, False, False, False, True, True, True, False] =
     Some [False, True, True, True, False, False, False, False, True, False, False, True, False, False, True, True]"
  by (simp add: chkl_numeral onel_def)

lemma orbit_seg_5:
  "chkl 12 [False, True, True, True, False, False, False, False, True, False, False, True, False, False, True, True] =
     Some [False, True, False, False, False, True, False, True, False, True, False, True, True, False, False, False]"
  by (simp add: chkl_numeral onel_def)

lemma orbit_seg_6:
  "chkl 12 [False, True, False, False, False, True, False, True, False, True, False, True, True, False, False, False] =
     Some [False, False, True, False, False, False, True, True, True, True, True, True, True, False, False, True]"
  by (simp add: chkl_numeral onel_def)

lemma orbit_seg_7:
  "chkl 12 [False, False, True, False, False, False, True, True, True, True, True, True, True, False, False, True] =
     Some [False, True, False, False, False, True, True, False, True, True, False, False, False, False, False, False]"
  by (simp add: chkl_numeral onel_def)

lemma orbit_seg_8:
  "chkl 12 [False, True, False, False, False, True, True, False, True, True, False, False, False, False, False, False] =
     Some [False, False, True, True, False, True, False, False, False, False, True, True, False, False, True, True]"
  by (simp add: chkl_numeral onel_def)

lemma orbit_seg_9:
  "chkl 12 [False, False, True, True, False, True, False, False, False, False, True, True, False, False, True, True] =
     Some [True, True, True, True, False, True, False, False, True, False, False, False, True, True, False, False]"
  by (simp add: chkl_numeral onel_def)

lemma orbit_seg_10:
  "chkl 12 [True, True, True, True, False, True, False, False, True, False, False, False, True, True, False, False] =
     Some [True, False, True, True, True, True, False, True, False, False, False, True, True, False, True, True]"
  by (simp add: chkl_numeral onel_def)

lemma orbit_seg_11:
  "chkl 12 [True, False, True, True, True, True, False, True, False, False, False, True, True, False, True, True] =
     Some [True, False, True, False, False, True, False, False, True, False, True, True, False, True, False, False]"
  by (simp add: chkl_numeral onel_def)

lemma orbit_seg_12:
  "chkl 12 [True, False, True, False, False, True, False, False, True, False, True, True, False, True, False, False] =
     Some [True, False, False, False, False, False, True, False, True, True, False, True, False, True, True, True]"
  by (simp add: chkl_numeral onel_def)

lemma orbit_seg_13:
  "chkl 12 [True, False, False, False, False, False, True, False, True, True, False, True, False, True, True, True] =
     Some [False, True, False, False, False, True, False, True, True, True, True, True, True, False, True, False]"
  by (simp add: chkl_numeral onel_def)

lemma orbit_seg_14:
  "chkl 12 [False, True, False, False, False, True, False, True, True, True, True, True, True, False, True, False] =
     Some [False, False, True, True, True, False, True, True, True, True, False, True, True, False, True, False]"
  by (simp add: chkl_numeral onel_def)

lemma orbit_seg_15:
  "chkl 11 [False, False, True, True, True, False, True, True, True, True, False, True, True, False, True, False] =
     Some [True, True, True, False, False, False, True, True, True, True, True, False, False, True, False, False]"
  by (simp add: chkl_numeral onel_def)

lemma orbit_seg_16:
  "chkl 10 [True, True, True, False, False, False, True, True, True, True, True, False, False, True, False, False] =
     Some [True, True, True, True, False, False, False, True, False, False, True, False, False, False, True, False]"
  by (simp add: chkl_numeral onel_def)

lemma orbit_seg_17:
  "chkl 9 [True, True, True, True, False, False, False, True, False, False, True, False, False, False, True, False] =
     Some [False, False, True, True, False, True, True, True, False, False, False, False, True, True, False, True]"
  by (simp add: chkl_numeral onel_def)

lemma orbit_seg_18:
  "chkl 8 [False, False, True, True, False, True, True, True, False, False, False, False, True, True, False, True] =
     Some [False, True, False, True, True, False, False, True, True, False, True, False, False, False, True, True]"
  by (simp add: chkl_numeral onel_def)

lemma orbit_seg_19:
  "chkl 7 [False, True, False, True, True, False, False, True, True, False, True, False, False, False, True, True] =
     Some [False, True, False, False, False, True, True, False, False, True, True, True, False, False, False, True]"
  by (simp add: chkl_numeral onel_def)

lemma orbit_seg_20:
  "chkl 6 [False, True, False, False, False, True, True, False, False, True, True, True, False, False, False, True] =
     Some [True, False, True, False, False, True, True, True, True, True, True, False, True, True, True, False]"
  by (simp add: chkl_numeral onel_def)

lemma orbit_seg_21:
  "chkl 5 [True, False, True, False, False, True, True, True, True, True, True, False, True, True, True, False] =
     Some [True, True, False, True, False, False, False, False, True, False, True, False, False, False, True, False]"
  by (simp add: chkl_numeral onel_def)

lemma orbit_seg_22:
  "chkl 4 [True, True, False, True, False, False, False, False, True, False, True, False, False, False, True, False] =
     Some [False, False, False, False, False, False, False, False, False, False, False, False, False, False, False, True]"
  by (simp add: chkl_numeral onel_def)

lemma orbit_seg_23:
  "chkl 3 [False, False, False, False, False, False, False, False, False, False, False, False, False, False, False, True] =
     Some [False, False, False, False, False, False, False, True, False, False, False, False, False, False, False, False]"
  by (simp add: chkl_numeral onel_def)

lemma orbit_seg_24:
  "chkl 2 [False, False, False, False, False, False, False, True, False, False, False, False, False, False, False, False] =
     Some [False, False, False, True, False, False, False, False, False, False, False, False, False, False, False, False]"
  by (simp add: chkl_numeral onel_def)

lemma orbit_seg_25:
  "chkl 1 [False, False, False, True, False, False, False, False, False, False, False, False, False, False, False, False] =
     Some [False, True, False, False, False, False, False, False, False, False, False, False, False, False, False, False]"
  by (simp add: chkl_numeral onel_def)


lemma orbit_65534:
  "orbit_upto 65534 [False, True, False, False, False, False, False, False, False, False, False, False, False, False, False, False]"
proof -
  note s0 = orbit_start [unfolded onel_def]
  have s1: "orbit_upto 4096 [True, True, False, False, True, False, False, True, True, True, True, True, True, True, True, False]"
    using orbit_extend [OF s0 orbit_seg_0] by simp
  have s2: "orbit_upto 8192 [True, True, False, True, True, True, True, False, False, True, False, False, False, True, True, True]"
    using orbit_extend [OF s1 orbit_seg_1] by simp
  have s3: "orbit_upto 12288 [False, False, True, False, True, True, True, False, True, True, True, True, True, False, False, True]"
    using orbit_extend [OF s2 orbit_seg_2] by simp
  have s4: "orbit_upto 16384 [False, False, True, True, False, False, False, True, True, False, False, False, True, True, True, False]"
    using orbit_extend [OF s3 orbit_seg_3] by simp
  have s5: "orbit_upto 20480 [False, True, True, True, False, False, False, False, True, False, False, True, False, False, True, True]"
    using orbit_extend [OF s4 orbit_seg_4] by simp
  have s6: "orbit_upto 24576 [False, True, False, False, False, True, False, True, False, True, False, True, True, False, False, False]"
    using orbit_extend [OF s5 orbit_seg_5] by simp
  have s7: "orbit_upto 28672 [False, False, True, False, False, False, True, True, True, True, True, True, True, False, False, True]"
    using orbit_extend [OF s6 orbit_seg_6] by simp
  have s8: "orbit_upto 32768 [False, True, False, False, False, True, True, False, True, True, False, False, False, False, False, False]"
    using orbit_extend [OF s7 orbit_seg_7] by simp
  have s9: "orbit_upto 36864 [False, False, True, True, False, True, False, False, False, False, True, True, False, False, True, True]"
    using orbit_extend [OF s8 orbit_seg_8] by simp
  have s10: "orbit_upto 40960 [True, True, True, True, False, True, False, False, True, False, False, False, True, True, False, False]"
    using orbit_extend [OF s9 orbit_seg_9] by simp
  have s11: "orbit_upto 45056 [True, False, True, True, True, True, False, True, False, False, False, True, True, False, True, True]"
    using orbit_extend [OF s10 orbit_seg_10] by simp
  have s12: "orbit_upto 49152 [True, False, True, False, False, True, False, False, True, False, True, True, False, True, False, False]"
    using orbit_extend [OF s11 orbit_seg_11] by simp
  have s13: "orbit_upto 53248 [True, False, False, False, False, False, True, False, True, True, False, True, False, True, True, True]"
    using orbit_extend [OF s12 orbit_seg_12] by simp
  have s14: "orbit_upto 57344 [False, True, False, False, False, True, False, True, True, True, True, True, True, False, True, False]"
    using orbit_extend [OF s13 orbit_seg_13] by simp
  have s15: "orbit_upto 61440 [False, False, True, True, True, False, True, True, True, True, False, True, True, False, True, False]"
    using orbit_extend [OF s14 orbit_seg_14] by simp
  have s16: "orbit_upto 63488 [True, True, True, False, False, False, True, True, True, True, True, False, False, True, False, False]"
    using orbit_extend [OF s15 orbit_seg_15] by simp
  have s17: "orbit_upto 64512 [True, True, True, True, False, False, False, True, False, False, True, False, False, False, True, False]"
    using orbit_extend [OF s16 orbit_seg_16] by simp
  have s18: "orbit_upto 65024 [False, False, True, True, False, True, True, True, False, False, False, False, True, True, False, True]"
    using orbit_extend [OF s17 orbit_seg_17] by simp
  have s19: "orbit_upto 65280 [False, True, False, True, True, False, False, True, True, False, True, False, False, False, True, True]"
    using orbit_extend [OF s18 orbit_seg_18] by simp
  have s20: "orbit_upto 65408 [False, True, False, False, False, True, True, False, False, True, True, True, False, False, False, True]"
    using orbit_extend [OF s19 orbit_seg_19] by simp
  have s21: "orbit_upto 65472 [True, False, True, False, False, True, True, True, True, True, True, False, True, True, True, False]"
    using orbit_extend [OF s20 orbit_seg_20] by simp
  have s22: "orbit_upto 65504 [True, True, False, True, False, False, False, False, True, False, True, False, False, False, True, False]"
    using orbit_extend [OF s21 orbit_seg_21] by simp
  have s23: "orbit_upto 65520 [False, False, False, False, False, False, False, False, False, False, False, False, False, False, False, True]"
    using orbit_extend [OF s22 orbit_seg_22] by simp
  have s24: "orbit_upto 65528 [False, False, False, False, False, False, False, True, False, False, False, False, False, False, False, False]"
    using orbit_extend [OF s23 orbit_seg_23] by simp
  have s25: "orbit_upto 65532 [False, False, False, True, False, False, False, False, False, False, False, False, False, False, False, False]"
    using orbit_extend [OF s24 orbit_seg_24] by simp
  have s26: "orbit_upto 65534 [False, True, False, False, False, False, False, False, False, False, False, False, False, False, False, False]"
    using orbit_extend [OF s25 orbit_seg_25] by simp
  show ?thesis by (rule s26)
qed

lemma orbit_last:
  "stepl [False, True, False, False, False, False, False, False, False, False, False, False, False, False, False, False] = onel"
  by (simp add: onel_def)

lemma lfsr_period: "(lfsr_step ^^ 65535) 1 = 1"
proof -
  have "(lfsr_step ^^ Suc 65534) 1 = lfsr_step ((lfsr_step ^^ 65534) 1)"
    by (simp only: funpow.simps o_apply)
  then have "bits16 ((lfsr_step ^^ Suc 65534) 1) = stepl (bits16 ((lfsr_step ^^ 65534) 1))"
    by (simp only: bits16_step)
  also have "\<dots> = bits16 1"
    using orbit_65534 orbit_last by (simp only: orbit_upto_def bits16_one)
  finally have "(lfsr_step ^^ Suc 65534) 1 = 1" by (rule bits16_inj)
  moreover have "Suc 65534 = 65535" by simp
  ultimately show ?thesis by (simp only:)
qed

lemma lfsr_no_return: "0 < i \<Longrightarrow> i < 65535 \<Longrightarrow> (lfsr_step ^^ i) 1 \<noteq> 1"
  using orbit_65534 by (simp add: orbit_upto_def list_all_iff)

lemma funpow_lfsr_inj: "(lfsr_step ^^ n) x = (lfsr_step ^^ n) y \<Longrightarrow> x = y"
  by (induction n) (auto dest: lfsr_step_inj)

lemma funpow_lfsr_nonzero: "x \<noteq> 0 \<Longrightarrow> (lfsr_step ^^ n) x \<noteq> 0"
  by (induction n) (auto dest: lfsr_step_nonzero)

lemma orbit_distinct:
  assumes "i < j" "j < 65535"
  shows "(lfsr_step ^^ i) 1 \<noteq> (lfsr_step ^^ j) 1"
proof
  assume e: "(lfsr_step ^^ i) 1 = (lfsr_step ^^ j) 1"
  have "j = i + (j - i)" using assms by simp
  then have "(lfsr_step ^^ j) 1 = (lfsr_step ^^ i) ((lfsr_step ^^ (j - i)) 1)"
    by (metis funpow_add o_apply)
  with e have "(lfsr_step ^^ (j - i)) 1 = 1" using funpow_lfsr_inj by metis
  moreover have "0 < j - i" "j - i < 65535" using assms by simp_all
  ultimately show False using lfsr_no_return by blast
qed

lemma orbit_inj_on: "inj_on (\<lambda>i. (lfsr_step ^^ i) 1) {..<65535}"
proof (rule inj_onI)
  fix i j :: nat
  assume "i \<in> {..<65535}" "j \<in> {..<65535}" and e: "(lfsr_step ^^ i) 1 = (lfsr_step ^^ j) 1"
  then have "i < 65535" "j < 65535" by simp_all
  then show "i = j" using e orbit_distinct [of i j] orbit_distinct [of j i]
    by (cases i j rule: linorder_cases) auto
qed

lemma card_nonzero: "card {x :: uint16_t. x \<noteq> 0} = 65535"
proof -
  have "{x :: uint16_t. x \<noteq> 0} = UNIV - {0}" by auto
  then show ?thesis by (simp add: card_Diff_singleton card_word)
qed

lemma orbit_all:
  assumes "x \<noteq> 0"
  shows "\<exists>i<65535. (lfsr_step ^^ i) 1 = x"
proof -
  let ?O = "(\<lambda>i. (lfsr_step ^^ i) 1) ` {..<65535}"
  have "card ?O = 65535" using orbit_inj_on by (simp add: card_image)
  moreover have "?O \<subseteq> {x. x \<noteq> 0}" using funpow_lfsr_nonzero [of 1] by auto
  ultimately have "?O = {x. x \<noteq> 0}"
    by (intro card_subset_eq) (simp_all add: card_nonzero)
  then have "x \<in> ?O" using assms by simp
  then show ?thesis by auto
qed

lemma orbit_reach:
  assumes "x \<noteq> 0" "t \<noteq> 0"
  shows "\<exists>n. 0 < n \<and> (lfsr_step ^^ n) x = t"
proof -
  obtain a where a: "a < 65535" "(lfsr_step ^^ a) 1 = x" using orbit_all [OF assms(1)] by auto
  obtain b where b: "b < 65535" "(lfsr_step ^^ b) 1 = t" using orbit_all [OF assms(2)] by auto
  have c: "(lfsr_step ^^ (m + a)) 1 = (lfsr_step ^^ m) x" for m
    using a(2) by (simp only: funpow_add o_apply)
  have p: "(lfsr_step ^^ (b + 65535)) 1 = t"
    using b(2) lfsr_period by (simp only: funpow_add o_apply)
  show ?thesis
  proof (cases "a < b")
    case True
    then have "(lfsr_step ^^ (b - a)) x = t" using c [of "b - a"] b(2) by simp
    then show ?thesis using True by (intro exI [of _ "b - a"]) simp
  next
    case False
    then have "b + 65535 - a + a = b + 65535" using a(1) by simp
    then have "(lfsr_step ^^ (b + 65535 - a)) x = t" using c [of "b + 65535 - a"] p by simp
    then show ?thesis using a(1) by (intro exI [of _ "b + 65535 - a"]) simp
  qed
qed

lemma next_pid_loop_returns:
  assumes "0 < n" "\<not> pid_exists q ((lfsr_step ^^ n) x)"
  shows "\<exists>m. 0 < m \<and> next_pid_loop q x = Some ((lfsr_step ^^ m) x)
             \<and> \<not> pid_exists q ((lfsr_step ^^ m) x)"
  using assms
proof (induction n arbitrary: x)
  case 0
  then show ?case by simp
next
  case (Suc n)
  show ?case
  proof (cases "pid_exists q (lfsr_step x)")
    case False
    then have "next_pid_loop q x = Some ((lfsr_step ^^ 1) x)"
      by (subst next_pid_loop.simps) (simp add: Let_def)
    then show ?thesis using False by (intro exI [of _ 1]) simp
  next
    case True
    have r: "(lfsr_step ^^ Suc k) x = (lfsr_step ^^ k) (lfsr_step x)" for k
      by (simp only: funpow_Suc_right o_apply)
    have "n \<noteq> 0" using True Suc.prems(2) by (cases n) auto
    then have "0 < n" by simp
    moreover have "\<not> pid_exists q ((lfsr_step ^^ n) (lfsr_step x))"
      using Suc.prems(2) unfolding r by assumption
    ultimately obtain m where m: "0 < m"
      "next_pid_loop q (lfsr_step x) = Some ((lfsr_step ^^ m) (lfsr_step x))"
      "\<not> pid_exists q ((lfsr_step ^^ m) (lfsr_step x))"
      using Suc.IH [of "lfsr_step x"] by blast
    have "next_pid_loop q x = next_pid_loop q (lfsr_step x)"
      using True by (subst next_pid_loop.simps) (simp add: Let_def)
    then have "next_pid_loop q x = Some ((lfsr_step ^^ Suc m) x)
        \<and> \<not> pid_exists q ((lfsr_step ^^ Suc m) x)"
      using m by (simp only: r) simp
    then show ?thesis by (intro exI [of _ "Suc m"]) simp
  qed
qed

lemma pid_exists_iff: "pid_exists q x \<longleftrightarrow> x \<in> packet_id ` set (mq_entries q)"
  by (auto simp: pid_exists_def list_ex_iff)

lemma fresh_pid_exists:
  assumes "queue_tail q < 65535"
  shows "\<exists>t. t \<noteq> 0 \<and> \<not> pid_exists q t"
proof (rule ccontr)
  assume "\<not> ?thesis"
  then have "{x. x \<noteq> 0} \<subseteq> packet_id ` set (mq_entries q)"
    by (auto simp: pid_exists_iff)
  then have "card {x :: uint16_t. x \<noteq> 0} \<le> card (packet_id ` set (mq_entries q))"
    by (intro card_mono) simp_all
  also have "\<dots> \<le> card (set (mq_entries q))" by (rule card_image_le) simp
  also have "\<dots> \<le> length (mq_entries q)" by (rule card_length)
  also have "\<dots> = queue_tail q" by (simp add: mq_entries_def mqtt_mq_length_def)
  finally show False using assms by (simp add: card_nonzero)
qed

lemma next_pid_loop_total:
  assumes "queue_tail q < 65535" "x \<noteq> 0"
  shows "\<exists>pid. next_pid_loop q x = Some pid \<and> pid \<noteq> 0 \<and> \<not> pid_exists q pid"
proof -
  obtain t where t: "t \<noteq> 0" "\<not> pid_exists q t" using fresh_pid_exists [OF assms(1)] by blast
  obtain n where n: "0 < n" "(lfsr_step ^^ n) x = t" using orbit_reach [OF assms(2) t(1)] by blast
  obtain m where "next_pid_loop q x = Some ((lfsr_step ^^ m) x)"
      "\<not> pid_exists q ((lfsr_step ^^ m) x)"
    using next_pid_loop_returns [of n q x] n t(2) by auto
  then show ?thesis using funpow_lfsr_nonzero [OF assms(2), of m] by auto
qed


lemma next_pid_loop_total_client:
  assumes "queue_tail (mq c) < 65535"
  shows "\<exists>pid. mqtt_next_pid c = Some (pid, c\<lparr>pid_lfsr := pid\<rparr>) \<and> pid \<noteq> 0
           \<and> \<not> pid_exists (mq c) pid"
proof -
  let ?c1 = "if pid_lfsr c = 0 then c\<lparr>pid_lfsr := 163\<rparr> else c"
  have q: "mq ?c1 = mq c" and nz: "pid_lfsr ?c1 \<noteq> 0" by simp_all
  obtain pid where p: "next_pid_loop (mq c) (pid_lfsr ?c1) = Some pid" "pid \<noteq> 0"
      "\<not> pid_exists (mq c) pid"
    using next_pid_loop_total [OF assms nz] by blast
  have u: "?c1\<lparr>pid_lfsr := pid\<rparr> = c\<lparr>pid_lfsr := pid\<rparr>" by simp
  have "mqtt_next_pid c = Some (pid, c\<lparr>pid_lfsr := pid\<rparr>)"
    unfolding mqtt_next_pid_def Let_def q p(1) u by simp
  then show ?thesis using p(2,3) by blast
qed

subsection \<open>The identifier returned\<close>

text \<open>
  C6. Let the queue hold fewer than 65535 entries; it cannot hold more, since its arena is
  given to \<^verbatim>\<open>mqtt_mq_init\<close> with a \<^verbatim>\<open>uint16_t\<close> size and every entry takes several
  bytes of it. Then \<^verbatim>\<open>mqtt_next_pid\<close> returns: its loop ends. The identifier it returns
  is not 0 and differs from the packet identifier of every entry of the queue, whatever
  the state and the control type of the entry, so in particular from those of the
  messages that wait for an acknowledgement. The client is changed in its seed only,
  which becomes the identifier returned.
\<close>

theorem next_pid_nonzero_fresh:
  assumes "queue_tail (mq c) < 65535"
  shows "\<exists>pid. mqtt_next_pid c = Some (pid, c\<lparr>pid_lfsr := pid\<rparr>) \<and> pid \<noteq> 0
           \<and> (\<forall>m \<in> set (mq_entries (mq c)). packet_id m \<noteq> pid)"
  using next_pid_loop_total_client [OF assms] by (auto simp: pid_exists_iff)

theorem next_pid_nonzero_fresh_witness:
  "queue_tail (mq pending_client) < 65535
   \<and> map packet_id (mq_entries (mq pending_client)) = [0xB451]
   \<and> map_option fst (mqtt_next_pid pending_client) = Some 0xEE28
   \<and> map_option (pid_lfsr \<circ> snd) (mqtt_next_pid pending_client) = Some 0xEE28"
proof -
  have h: "queue_tail (mq pending_client) < 65535" by (simp add: pending_client_def)
  have e: "map packet_id (mq_entries (mq pending_client)) = [0xB451]" by code_simp
  obtain pid where p: "mqtt_next_pid pending_client = Some (pid, pending_client\<lparr>pid_lfsr := pid\<rparr>)"
    using next_pid_nonzero_fresh [OF h] by blast
  have "map_option fst (mqtt_next_pid pending_client) = Some 0xEE28" by code_simp
  then have "pid = 0xEE28" using p by simp
  then show ?thesis using h e p by simp
qed

section \<open>A stored error\<close>



section \<open>Receiving a CONNACK\<close>



end
